theory Spec2Isabelle
  imports Main "HOL-Library.Sublist" "HOL-Library.AList"
begin

section \<open>Observation masking service of the conversation history\<close>

text \<open>
  This theory embeds \<^verbatim>\<open>packages/core/src/services/observationMaskingService.ts\<close>.
  Conventions of the embedding:
  \<^item> a JavaScript string is a \<^typ>\<open>string\<close>, one \<^typ>\<open>char\<close> per UTF-16 code unit
    (code units up to 255); \<open>length\<close>, \<open>take\<close> and \<open>drop\<close> are \<open>.length\<close> and \<open>.slice\<close>;
  \<^item> JavaScript numbers occurring in payloads are safe integers (magnitude below \<open>2^53\<close>),
    on which \<open>toString\<close> is the decimal numeral; payload objects are plain data (association
    lists in insertion order), arrays and functions do not occur;
  \<^item> the token estimator, \<open>path.join\<close>, \<open>Buffer.byteLength\<close>, the clock, the random
    generator and the success of file-system calls are collaborators outside the service and
    are parameters of the model (record \<open>env\<close>);
  \<^item> the objects of the history (the \<open>Content[]\<close> array, each \<open>Content\<close>, each \<open>Part[]\<close> array,
    each \<open>Part\<close>) live in an explicit store, one component per class, an address being an index.
\<close>

subsection \<open>JavaScript values\<close>

datatype jsval =
    JUndef
  | JNull
  | JBool bool
  | JNum int
  | JStr string
  | JObj "(string \<times> jsval) list"

text \<open>Truthiness, as used by \<open>!x\<close> and \<open>x || y\<close>.\<close>

fun truthy :: "jsval \<Rightarrow> bool" where
  "truthy JUndef = False"
| "truthy JNull = False"
| "truthy (JBool b) = b"
| "truthy (JNum n) = (n \<noteq> 0)"
| "truthy (JStr s) = (s \<noteq> [])"
| "truthy (JObj kvs) = True"

text \<open>\<open>'k' in obj && typeof obj['k'] === 'string'\<close>, giving the string when the test holds.\<close>

definition string_at :: "(string \<times> jsval) list \<Rightarrow> string \<Rightarrow> string option" where
  "string_at kvs k = (case map_of kvs k of Some (JStr s) \<Rightarrow> Some s | _ \<Rightarrow> None)"

text \<open>\<open>'k' in obj\<close> for a plain object.\<close>

definition has_key :: "string \<Rightarrow> (string \<times> jsval) list \<Rightarrow> bool" where
  "has_key k kvs = (map_of kvs k \<noteq> None)"

subsection \<open>Decimal rendering of numbers\<close>

definition digit_char :: "nat \<Rightarrow> char" where
  "digit_char d = ''0123456789'' ! d"

fun decimal :: "nat \<Rightarrow> string" where
  "decimal n = (if n < 10 then [digit_char n] else decimal (n div 10) @ [digit_char (n mod 10)])"

declare decimal.simps [simp del]

text \<open>\<open>String(n)\<close> of an integer.\<close>

definition decimal_int :: "int \<Rightarrow> string" where
  "decimal_int i = (if 0 \<le> i then decimal (nat i) else CHR ''-'' # decimal (nat (- i)))"

text \<open>\<open>Number.prototype.toLocaleString()\<close> of an integer in the en-US locale the tests
  expect (\<open>60,000\<close>): groups of three digits separated by commas.\<close>

definition pad3 :: "nat \<Rightarrow> string" where
  "pad3 m = [digit_char (m div 100), digit_char (m div 10 mod 10), digit_char (m mod 10)]"

fun toLocaleString :: "nat \<Rightarrow> string" where
  "toLocaleString n =
     (if n < 1000 then decimal n else toLocaleString (n div 1000) @ '','' @ pad3 (n mod 1000))"

declare toLocaleString.simps [simp del]

definition toLocaleString_int :: "int \<Rightarrow> string" where
  "toLocaleString_int i =
     (if 0 \<le> i then toLocaleString (nat i) else CHR ''-'' # toLocaleString (nat (- i)))"

text \<open>\<open>(bytes / 1024 / 1024).toFixed(2)\<close>. Dividing an integer below \<open>2^53\<close> by a power of two
  is exact in binary floating point, and \<open>toFixed\<close> picks the integer \<open>n\<close> with \<open>n / 100\<close>
  nearest to the exact quotient, the larger one on a tie: \<open>n = \<lfloor>100 b / 2^20 + 1/2\<rfloor>\<close>.\<close>

definition toFixed2_MB :: "nat \<Rightarrow> string" where
  "toFixed2_MB b =
     (let n = (100 * b + 524288) div 1048576
      in decimal (n div 100) @ ''.'' @ [digit_char (n mod 100 div 10), digit_char (n mod 10)])"

subsection \<open>String operations\<close>

text \<open>\<open>content.split('\n')\<close>\<close>

fun js_split_nl :: "string \<Rightarrow> string list" where
  "js_split_nl [] = [[]]"
| "js_split_nl (c # cs) =
     (if c = CHR 0x0A then [] # js_split_nl cs
      else (case js_split_nl cs of [] \<Rightarrow> [[c]] | l # ls \<Rightarrow> (c # l) # ls))"

text \<open>\<open>haystack.includes(needle)\<close>\<close>

fun js_includes :: "string \<Rightarrow> string \<Rightarrow> bool" where
  "js_includes [] needle = (needle = [])"
| "js_includes (c # cs) needle = (prefix needle (c # cs) \<or> js_includes cs needle)"

subsection \<open>Parts, tool responses and the collaborators\<close>

record FunctionResponse =
  name :: "string option"
  response :: jsval
  fr_rest :: "(string \<times> jsval) list"

record Part =
  functionResponse :: "FunctionResponse option"
  part_rest :: "(string \<times> jsval) list"

text \<open>A \<open>Content\<close> object: its role and a reference to its \<open>Part[]\<close> array when it has one.\<close>

record Content =
  role :: "string option"
  parts :: "nat option"

record env =
  estimateTokenCountSync :: "Part list \<Rightarrow> nat"
  getHistoryDir :: string
  path_join :: "string \<Rightarrow> string \<Rightarrow> string"
  byteLength :: "string \<Rightarrow> nat"
  date_now :: "nat \<Rightarrow> nat"
  random_suffix :: "nat \<Rightarrow> string"
  io_fails :: "nat \<Rightarrow> bool"

text \<open>
  \<open>estimateTokenCountSync\<close> returns a count (upstream it is the floor of a sum of non-negative
  terms). \<open>date_now k\<close> and \<open>random_suffix k\<close> are \<open>Date.now()\<close> and
  \<open>Math.random().toString(36).substring(7)\<close> in iteration \<open>k\<close> of the offload loop;
  \<open>io_fails 0\<close> says that \<open>mkdir\<close> rejects and \<open>io_fails (Suc k)\<close> that the \<open>writeFile\<close> of
  iteration \<open>k\<close> rejects.
\<close>

definition TOOL_PROTECTION_THRESHOLD :: nat where
  "TOOL_PROTECTION_THRESHOLD = 50000"

definition HYSTERESIS_THRESHOLD :: nat where
  "HYSTERESIS_THRESHOLD = 30000"

definition SMART_TRUNCATION_TOKENS :: nat where
  "SMART_TRUNCATION_TOKENS = 5000"

definition OBSERVATION_DIR :: string where
  "OBSERVATION_DIR = ''observations''"

subsection \<open>Reading an observation\<close>

definition getObservationContent :: "Part \<Rightarrow> string option" where
  "getObservationContent p =
     (case functionResponse p of
        None \<Rightarrow> None
      | Some fr \<Rightarrow>
          (if \<not> truthy (response fr) then None
           else (case response fr of
                   JStr s \<Rightarrow> Some s
                 | JObj kvs \<Rightarrow>
                     (case string_at kvs ''output'' of Some s \<Rightarrow> Some s | None \<Rightarrow>
                      (case string_at kvs ''result'' of Some s \<Rightarrow> Some s | None \<Rightarrow>
                       (case string_at kvs ''stdout'' of Some s \<Rightarrow> Some s | None \<Rightarrow>
                        string_at kvs ''content'')))
                 | _ \<Rightarrow> None)))"

definition isAlreadyMasked :: "string \<Rightarrow> bool" where
  "isAlreadyMasked c = js_includes c ''[Observation Masked]''"

subsection \<open>The replacement snippet\<close>

definition formatMaskedSnippet :: "env \<Rightarrow> string \<Rightarrow> string \<Rightarrow> string \<Rightarrow> nat \<Rightarrow> string" where
  \<open>formatMaskedSnippet e c filePath toolName totalTokens =
     (let totalLines = length (js_split_nl c);
          fileSizeMB = toFixed2_MB (byteLength e c);
          charLimit = SMART_TRUNCATION_TOKENS * 4
      in if 2 * length c \<le> charLimit * 5 then c
         else
           (let head = take charLimit c;
                tail = drop (length c - charLimit) c
            in ''[Observation Masked]\<newline>'' @ head @ ''\<newline>''
               @ ''... [TRUNCATED '' @ toLocaleString totalLines @ '' LINES | '' @ fileSizeMB
               @ ''MB | ~'' @ toLocaleString totalTokens @ '' TOKENS] ...\<newline>''
               @ tail @ ''\<newline>\<newline>''
               @ ''<observation_masked_guidance tool_name="'' @ toolName @ ''">\<newline>''
               @ ''  <summary>\<newline>''
               @ ''    Data from tool "'' @ toolName @ ''" was offloaded to save context space.\<newline>''
               @ ''  </summary>\<newline>''
               @ ''  <details>\<newline>''
               @ ''    <file_path>'' @ filePath @ ''</file_path>\<newline>''
               @ ''    <line_count>'' @ toLocaleString totalLines @ ''</line_count>\<newline>''
               @ ''    <file_size>'' @ fileSizeMB @ ''MB</file_size>\<newline>''
               @ ''    <estimated_total_tokens>'' @ toLocaleString totalTokens
               @ ''</estimated_total_tokens>\<newline>''
               @ ''  </details>\<newline>''
               @ ''  <instructions>\<newline>''
               @ ''    The full output is available at the path above. \<newline>''
               @ ''    You can inspect it using tools like 'search_file_content' or 'read_file'.\<newline>''
               @ ''    Note: Reading the full file will use approximately ''
               @ toLocaleString totalTokens @ '' tokens.\<newline>''
               @ ''  </instructions>\<newline>''
               @ ''</observation_masked_guidance>''))\<close>

subsection \<open>The store and the scan\<close>

text \<open>
  One component per class of object; an address is an index into its component, and
  allocation appends. \<open>h_history\<close> holds the \<open>Content[]\<close> arrays (lists of addresses of
  \<open>Content\<close> objects), \<open>h_parts\<close> the \<open>Part[]\<close> arrays (lists of addresses of parts).
\<close>

record store =
  h_history :: "nat list list"
  h_content :: "Content list"
  h_parts :: "nat list list"
  h_part :: "Part list"

record prunable =
  contentIndex :: nat
  partIndex :: nat
  tokens :: nat
  content :: string

text \<open>What a call does beyond returning: the calls of the estimator, the debug log, the
  file-system calls that succeeded and the telemetry event, in the order they happen.\<close>

datatype effect =
    Estimate "Part list"
  | DebugLog string
  | Mkdir string
  | WriteFile string string
  | Telemetry nat int nat nat

record scan_state =
  cumulativeToolTokens :: nat
  protectionBoundaryReached :: bool
  totalPrunableTokens :: nat
  prunableParts :: "prunable list"
  trace :: "effect list"

definition init_scan :: scan_state where
  "init_scan = \<lparr>cumulativeToolTokens = 0, protectionBoundaryReached = False,
                 totalPrunableTokens = 0, prunableParts = [], trace = []\<rparr>"

text \<open>The body of the inner loop, for part \<open>j\<close> of turn \<open>i\<close>.\<close>

definition scan_part :: "env \<Rightarrow> nat \<Rightarrow> nat \<Rightarrow> Part \<Rightarrow> scan_state \<Rightarrow> scan_state" where
  "scan_part e i j p s =
     (if functionResponse p = None then s
      else
        (case getObservationContent p of
           None \<Rightarrow> s
         | Some observationContent \<Rightarrow>
             if observationContent = [] \<or> isAlreadyMasked observationContent then s
             else
               (let partTokens = estimateTokenCountSync e [p];
                    s1 = s\<lparr>trace := trace s @ [Estimate [p]]\<rparr>;
                    item = \<lparr>contentIndex = i, partIndex = j, tokens = partTokens,
                            content = observationContent\<rparr>
                in if \<not> protectionBoundaryReached s1 then
                     (let s2 = s1\<lparr>cumulativeToolTokens := cumulativeToolTokens s1 + partTokens\<rparr>
                      in if cumulativeToolTokens s2 > TOOL_PROTECTION_THRESHOLD then
                           s2\<lparr>protectionBoundaryReached := True,
                              totalPrunableTokens := totalPrunableTokens s2 + partTokens,
                              prunableParts := prunableParts s2 @ [item]\<rparr>
                         else s2)
                   else
                     s1\<lparr>totalPrunableTokens := totalPrunableTokens s1 + partTokens,
                        prunableParts := prunableParts s1 @ [item]\<rparr>)))"

text \<open>\<open>for (let j = parts.length - 1; j >= 0; j--)\<close>: the counter argument is \<open>j + 1\<close>.\<close>

fun scan_parts :: "env \<Rightarrow> store \<Rightarrow> nat \<Rightarrow> nat list \<Rightarrow> nat \<Rightarrow> scan_state \<Rightarrow> scan_state" where
  "scan_parts e st i ps 0 s = s"
| "scan_parts e st i ps (Suc j) s =
     scan_parts e st i ps j (scan_part e i j (h_part st ! (ps ! j)) s)"

text \<open>\<open>content.parts || []\<close>\<close>

definition parts_of :: "store \<Rightarrow> nat \<Rightarrow> nat list" where
  "parts_of st ca = (case parts (h_content st ! ca) of None \<Rightarrow> [] | Some a \<Rightarrow> h_parts st ! a)"

text \<open>\<open>for (let i = history.length - 1; i >= 0; i--)\<close>: the counter argument is \<open>i + 1\<close>.\<close>

fun scan_history :: "env \<Rightarrow> store \<Rightarrow> nat list \<Rightarrow> nat \<Rightarrow> scan_state \<Rightarrow> scan_state" where
  "scan_history e st hist 0 s = s"
| "scan_history e st hist (Suc i) s =
     scan_history e st hist i
       (let ps = parts_of st (hist ! i) in scan_parts e st i ps (length ps) s)"

subsection \<open>Offloading and masking\<close>

datatype error = IOError | TypeError

record MaskingResult =
  newHistory :: nat
  maskedCount :: nat
  tokensSaved :: int

text \<open>\<open>x?.toString()\<close>, with the empty string standing for the \<open>undefined\<close> that
  optional chaining gives on \<open>undefined\<close> and \<open>null\<close> (both are falsy for the \<open>||\<close> that
  follows).\<close>

fun js_toString :: "jsval \<Rightarrow> string" where
  "js_toString (JStr s) = s"
| "js_toString (JNum n) = decimal_int n"
| "js_toString (JBool b) = (if b then ''true'' else ''false'')"
| "js_toString (JObj kvs) = ''[object Object]''"
| "js_toString JUndef = []"
| "js_toString JNull = []"

text \<open>\<open>response['callId']?.toString() || Date.now().toString()\<close> with
  \<open>response = functionResponse.response || {}\<close>; an absent, \<open>null\<close> or empty identifier
  falls back to the clock.\<close>

definition callId_of :: "env \<Rightarrow> nat \<Rightarrow> jsval \<Rightarrow> string" where
  "callId_of e k r =
     (let resp = (if truthy r then r else JObj []);
          v = (case resp of
                 JObj kvs \<Rightarrow> (case map_of kvs ''callId'' of None \<Rightarrow> JUndef | Some x \<Rightarrow> x)
               | _ \<Rightarrow> JUndef);
          s = js_toString v
      in if s \<noteq> [] then s else decimal (date_now e k))"

definition fileName_of :: "env \<Rightarrow> nat \<Rightarrow> FunctionResponse \<Rightarrow> string" where
  "fileName_of e k fr =
     (case name fr of None \<Rightarrow> ''undefined'' | Some n \<Rightarrow> n) @ ''_'' @ callId_of e k (response fr)
       @ ''_'' @ random_suffix e k @ ''.txt''"

text \<open>The new response payload: the masked snippet itself for a bare string, otherwise a
  copy of the payload with the first of \<open>output\<close>, \<open>result\<close>, \<open>stdout\<close>, \<open>content\<close> that is
  \<open>in\<close> the payload set to the snippet (\<open>output\<close> when none is). The \<open>in\<close> operator throws on
  a number or a boolean.\<close>

definition newResponse_of :: "jsval \<Rightarrow> string \<Rightarrow> error + jsval" where
  "newResponse_of r maskedSnippet =
     (let originalResponse = (if truthy r then r else JObj [])
      in case originalResponse of
           JStr s \<Rightarrow> Inr (JStr maskedSnippet)
         | JObj kvs \<Rightarrow>
             Inr (JObj
               (if has_key ''output'' kvs then AList.update ''output'' (JStr maskedSnippet) kvs
                else if has_key ''result'' kvs then AList.update ''result'' (JStr maskedSnippet) kvs
                else if has_key ''stdout'' kvs then AList.update ''stdout'' (JStr maskedSnippet) kvs
                else if has_key ''content'' kvs then AList.update ''content'' (JStr maskedSnippet) kvs
                else AList.update ''output'' (JStr maskedSnippet) kvs))
         | _ \<Rightarrow> Inl TypeError)"

text \<open>\<open>{...part, functionResponse: {...part.functionResponse, response: newResponse}}\<close>\<close>

definition masked_part :: "Part \<Rightarrow> FunctionResponse \<Rightarrow> jsval \<Rightarrow> Part" where
  "masked_part p fr newResponse = p\<lparr>functionResponse := Some (fr\<lparr>response := newResponse\<rparr>)\<rparr>"

record loop_state =
  heap :: store
  actualTokensSaved :: int
  effects :: "effect list"

text \<open>One iteration of \<open>for (const item of prunableParts)\<close>, number \<open>k\<close>, on the working
  copy at address \<open>nh\<close>. Reading a property of \<open>undefined\<close> is a \<open>TypeError\<close>. The new
  \<open>Part[]\<close> array, the new part and the new \<open>Content\<close> are allocated; the only writes go to
  the new \<open>Part[]\<close> array and to the working copy.\<close>

definition mask_item ::
  "env \<Rightarrow> string \<Rightarrow> nat \<Rightarrow> nat \<Rightarrow> prunable \<Rightarrow> loop_state \<Rightarrow> error option \<times> loop_state" where
  "mask_item e observationDir nh k item ls =
     (let s = heap ls; hist = h_history s ! nh
      in if length hist \<le> contentIndex item then (Some TypeError, ls)
         else
           (let contentRecord = h_content s ! (hist ! contentIndex item)
            in case parts contentRecord of
                 None \<Rightarrow> (Some TypeError, ls)
               | Some pa \<Rightarrow>
                   (let ps = h_parts s ! pa
                    in if length ps \<le> partIndex item then (Some TypeError, ls)
                       else
                         (let p = h_part s ! (ps ! partIndex item)
                          in case functionResponse p of
                               None \<Rightarrow> (None, ls)
                             | Some fr \<Rightarrow>
                                 (let filePath = path_join e observationDir (fileName_of e k fr)
                                  in if io_fails e (Suc k) then (Some IOError, ls)
                                     else
                                       (let maskedSnippet =
                                              formatMaskedSnippet e (content item) filePath
                                                (case name fr of None \<Rightarrow> ''unknown_tool'' | Some n \<Rightarrow> n)
                                                (tokens item);
                                            written = effects ls @ [WriteFile filePath (content item)];
                                            newParts = length (h_parts s);
                                            s1 = s\<lparr>h_parts := h_parts s @ [ps]\<rparr>
                                        in case newResponse_of (response fr) maskedSnippet of
                                             Inl err \<Rightarrow> (Some err, ls\<lparr>heap := s1, effects := written\<rparr>)
                                           | Inr newResponse \<Rightarrow>
                                               (let newPart = masked_part p fr newResponse;
                                                    np = length (h_part s1);
                                                    s2 = s1\<lparr>h_part := h_part s1 @ [newPart]\<rparr>;
                                                    s3 = s2\<lparr>h_parts := (h_parts s2)
                                                           [newParts := (h_parts s2 ! newParts)[partIndex item := np]]\<rparr>;
                                                    nc = length (h_content s3);
                                                    s4 = s3\<lparr>h_content := h_content s3
                                                           @ [contentRecord\<lparr>parts := Some newParts\<rparr>]\<rparr>;
                                                    s5 = s4\<lparr>h_history := (h_history s4)
                                                           [nh := (h_history s4 ! nh)[contentIndex item := nc]]\<rparr>;
                                                    newTaskTokens = estimateTokenCountSync e [newPart]
                                                in (None,
                                                    \<lparr>heap = s5,
                                                     actualTokensSaved = actualTokensSaved ls
                                                        + (int (tokens item) - int newTaskTokens),
                                                     effects = written @ [Estimate [newPart]]\<rparr>))))))))"

fun mask_loop ::
  "env \<Rightarrow> string \<Rightarrow> nat \<Rightarrow> nat \<Rightarrow> prunable list \<Rightarrow> loop_state \<Rightarrow> error option \<times> loop_state" where
  "mask_loop e observationDir nh k [] ls = (None, ls)"
| "mask_loop e observationDir nh k (item # items) ls =
     (case mask_item e observationDir nh k item ls of
        (Some err, ls') \<Rightarrow> (Some err, ls')
      | (None, ls') \<Rightarrow> mask_loop e observationDir nh (Suc k) items ls')"

text \<open>\<open>mask(history, config)\<close>: the outcome (a rejection or the result), the store afterwards
  and the effects. \<open>history\<close> is the address of the caller's \<open>Content[]\<close> array.\<close>

definition mask :: "env \<Rightarrow> store \<Rightarrow> nat \<Rightarrow> (error + MaskingResult) \<times> store \<times> effect list" where
  "mask e s history =
     (let hist = h_history s ! history
      in if length hist = 0 then
           (Inr \<lparr>newHistory = history, maskedCount = 0, tokensSaved = 0\<rparr>, s, [])
         else
           (let sc = scan_history e s hist (length hist) init_scan
            in if totalPrunableTokens sc < HYSTERESIS_THRESHOLD then
                 (Inr \<lparr>newHistory = history, maskedCount = 0, tokensSaved = 0\<rparr>, s, trace sc)
               else
                 (let log1 = DebugLog
                        (''[ObservationMasking] Triggering masking. Prunable tool tokens: ''
                          @ toLocaleString (totalPrunableTokens sc) @ '' (> ''
                          @ toLocaleString HYSTERESIS_THRESHOLD @ '')'');
                      nh = length (h_history s);
                      s1 = s\<lparr>h_history := h_history s @ [hist]\<rparr>;
                      observationDir = path_join e (getHistoryDir e) OBSERVATION_DIR
                  in if io_fails e 0 then (Inl IOError, s1, trace sc @ [log1])
                     else
                       (case mask_loop e observationDir nh 0 (prunableParts sc)
                               \<lparr>heap = s1, actualTokensSaved = 0,
                                effects = trace sc @ [log1, Mkdir observationDir]\<rparr> of
                          (Some err, ls) \<Rightarrow> (Inl err, heap ls, effects ls)
                        | (None, ls) \<Rightarrow>
                            (Inr \<lparr>newHistory = nh, maskedCount = length (prunableParts sc),
                                  tokensSaved = actualTokensSaved ls\<rparr>,
                             heap ls,
                             effects ls @
                               [DebugLog (''[ObservationMasking] Masked ''
                                  @ decimal (length (prunableParts sc)) @ '' tool outputs. Saved ~''
                                  @ toLocaleString_int (actualTokensSaved ls) @ '' tokens.''),
                                Telemetry (totalPrunableTokens sc)
                                  (int (totalPrunableTokens sc) - actualTokensSaved ls)
                                  (length (prunableParts sc)) (totalPrunableTokens sc)])))))"

subsection \<open>The observations in scan order\<close>

text \<open>A part takes part in the scan when it is a tool observation whose text is not empty
  and does not carry the masked marker.\<close>

definition qualifying :: "Part \<Rightarrow> bool" where
  "qualifying p =
     (case getObservationContent p of None \<Rightarrow> False | Some c \<Rightarrow> c \<noteq> [] \<and> \<not> isAlreadyMasked c)"

definition entry_of :: "env \<Rightarrow> nat \<times> nat \<times> Part \<Rightarrow> prunable" where
  "entry_of e x =
     (case x of (i, j, p) \<Rightarrow>
        \<lparr>contentIndex = i, partIndex = j, tokens = estimateTokenCountSync e [p],
         content = (case getObservationContent p of None \<Rightarrow> [] | Some c \<Rightarrow> c)\<rparr>)"

text \<open>All positions of a history with their parts: turns last to first, and the parts of a
  turn last to first.\<close>

definition scan_order :: "store \<Rightarrow> nat list \<Rightarrow> (nat \<times> nat \<times> Part) list" where
  "scan_order st hist =
     concat (map (\<lambda>i. map (\<lambda>j. (i, j, h_part st ! (parts_of st (hist ! i) ! j)))
                          (rev [0..<length (parts_of st (hist ! i))]))
                 (rev [0..<length hist]))"

definition observations :: "env \<Rightarrow> store \<Rightarrow> nat list \<Rightarrow> prunable list" where
  "observations e st hist =
     map (entry_of e) (filter (\<lambda>(i, j, p). qualifying p) (scan_order st hist))"

text \<open>The accounting of one observation, and the loop body as a function of a position.\<close>

definition account :: "scan_state \<Rightarrow> Part \<times> prunable \<Rightarrow> scan_state" where
  "account s x =
     (case x of (p, item) \<Rightarrow>
       (let s1 = s\<lparr>trace := trace s @ [Estimate [p]]\<rparr>
        in if \<not> protectionBoundaryReached s1 then
             (let s2 = s1\<lparr>cumulativeToolTokens := cumulativeToolTokens s1 + tokens item\<rparr>
              in if cumulativeToolTokens s2 > TOOL_PROTECTION_THRESHOLD then
                   s2\<lparr>protectionBoundaryReached := True,
                      totalPrunableTokens := totalPrunableTokens s2 + tokens item,
                      prunableParts := prunableParts s2 @ [item]\<rparr>
                 else s2)
           else
             s1\<lparr>totalPrunableTokens := totalPrunableTokens s1 + tokens item,
                prunableParts := prunableParts s1 @ [item]\<rparr>))"

definition visit :: "env \<Rightarrow> scan_state \<Rightarrow> nat \<times> nat \<times> Part \<Rightarrow> scan_state" where
  "visit e s x = (case x of (i, j, p) \<Rightarrow> scan_part e i j p s)"

subsection \<open>Example histories\<close>

text \<open>The fixtures of \<^verbatim>\<open>observationMaskingService.test.ts\<close>: a tool response with an
  \<open>output\<close> key, an estimator counting one token per character of the observation text, a
  file system that never fails.\<close>

definition tool_part :: "string \<Rightarrow> string \<Rightarrow> Part" where
  "tool_part n out =
     \<lparr>functionResponse = Some \<lparr>name = Some n, response = JObj [(''output'', JStr out)], fr_rest = []\<rparr>,
      part_rest = []\<rparr>"

definition chars_estimate :: "Part list \<Rightarrow> nat" where
  "chars_estimate ps =
     sum_list (map (\<lambda>p. case getObservationContent p of None \<Rightarrow> 0 | Some c \<Rightarrow> length c) ps)"

definition test_env :: env where
  "test_env =
     \<lparr>estimateTokenCountSync = chars_estimate, getHistoryDir = ''/mock/history'',
      path_join = (\<lambda>a b. a @ ''/'' @ b), byteLength = length,
      date_now = (\<lambda>k. 1700000000000 + k), random_suffix = (\<lambda>k. ''r'' @ decimal k),
      io_fails = (\<lambda>k. False)\<rparr>"

text \<open>Three turns of one tool response each: 60,000, 60,000 and 20,000 characters.\<close>

definition three_turns :: store where
  "three_turns =
     \<lparr>h_history = [[0, 1, 2]],
      h_content = [\<lparr>role = Some ''user'', parts = Some 0\<rparr>, \<lparr>role = Some ''user'', parts = Some 1\<rparr>,
                   \<lparr>role = Some ''user'', parts = Some 2\<rparr>],
      h_parts = [[0], [1], [2]],
      h_part = [tool_part ''tool1'' (replicate 60000 (CHR ''A'')),
                tool_part ''tool2'' (replicate 60000 (CHR ''B'')),
                tool_part ''tool3'' (replicate 20000 (CHR ''C''))]\<rparr>"

text \<open>A tool output that happens to contain the marker text, as the oldest of three turns.\<close>

definition marker_part :: Part where
  "marker_part = tool_part ''grep'' ''log: [Observation Masked] seen''"

definition marker_turns :: store where
  "marker_turns =
     \<lparr>h_history = [[0, 1, 2]],
      h_content = [\<lparr>role = Some ''user'', parts = Some 0\<rparr>, \<lparr>role = Some ''user'', parts = Some 1\<rparr>,
                   \<lparr>role = Some ''user'', parts = Some 2\<rparr>],
      h_parts = [[0], [1], [2]],
      h_part = [marker_part,
                tool_part ''tool2'' (replicate 60000 (CHR ''B'')),
                tool_part ''tool3'' (replicate 20000 (CHR ''C''))]\<rparr>"

text \<open>A payload whose \<open>output\<close> is not a string while \<open>result\<close> holds the text.\<close>

definition mixed_payload :: jsval where
  "mixed_payload = JObj [(''output'', JNum 42), (''result'', JStr (replicate 60000 (CHR ''A'')))]"

definition mixed_part :: Part where
  "mixed_part = \<lparr>functionResponse = Some \<lparr>name = Some ''tool1'', response = mixed_payload, fr_rest = []\<rparr>,
                  part_rest = []\<rparr>"

text \<open>A history with that part in its older turn and 20,000 characters in the newer one.\<close>

definition mixed_turns :: store where
  "mixed_turns =
     \<lparr>h_history = [[0, 1]],
      h_content = [\<lparr>role = Some ''user'', parts = Some 0\<rparr>, \<lparr>role = Some ''user'', parts = Some 1\<rparr>],
      h_parts = [[0], [1]],
      h_part = [mixed_part, tool_part ''tool3'' (replicate 20000 (CHR ''C''))]\<rparr>"

subsection \<open>Well-formed stores and the view of a history\<close>

text \<open>References never dangle in JavaScript: a history is well formed in a store when its
  address, the addresses of its turns, of their \<open>Part[]\<close> arrays and of their parts are
  allocated.\<close>

definition wf_history :: "store \<Rightarrow> nat \<Rightarrow> bool" where
  "wf_history s a =
     (a < length (h_history s) \<and>
      list_all (\<lambda>ca. ca < length (h_content s) \<and>
                  (case parts (h_content s ! ca) of
                     None \<Rightarrow> True
                   | Some pa \<Rightarrow> pa < length (h_parts s) \<and>
                       list_all (\<lambda>p. p < length (h_part s)) (h_parts s ! pa)))
               (h_history s ! a))"

text \<open>The parts a turn and a history hold, read through the store.\<close>

definition turn_view :: "store \<Rightarrow> nat \<Rightarrow> Part list" where
  "turn_view s ca = map (\<lambda>p. h_part s ! p) (parts_of s ca)"

definition history_view :: "store \<Rightarrow> nat \<Rightarrow> Part list list" where
  "history_view s a = map (turn_view s) (h_history s ! a)"

text \<open>The payloads on which the \<open>in\<close> operator of the replacement does not throw, and the
  parts an iteration of the offload loop can mask.\<close>

definition payload_ok :: "jsval \<Rightarrow> bool" where
  "payload_ok r = (case r of JNum n \<Rightarrow> n = 0 | JBool b \<Rightarrow> \<not> b | _ \<Rightarrow> True)"

definition maskable :: "Part \<Rightarrow> bool" where
  "maskable p = (case functionResponse p of None \<Rightarrow> False | Some fr \<Rightarrow> payload_ok (response fr))"

text \<open>Every object of \<open>s0\<close> is still there in \<open>s\<close>, with the same contents.\<close>

definition preserves :: "store \<Rightarrow> store \<Rightarrow> bool" where
  "preserves s0 s =
     (take (length (h_history s0)) (h_history s) = h_history s0 \<and>
      take (length (h_content s0)) (h_content s) = h_content s0 \<and>
      take (length (h_parts s0)) (h_parts s) = h_parts s0 \<and>
      take (length (h_part s0)) (h_part s) = h_part s0)"

text \<open>Names for the pieces of \<open>mask\<close>: the scan of a history, the offload directory, the
  log line, the store after the shallow copy, the state at the start of the loop, and the
  effects after the loop.\<close>

definition scan_of :: "env \<Rightarrow> store \<Rightarrow> nat \<Rightarrow> scan_state" where
  "scan_of e s history =
     scan_history e s (h_history s ! history) (length (h_history s ! history)) init_scan"

definition observationDir_of :: "env \<Rightarrow> string" where
  "observationDir_of e = path_join e (getHistoryDir e) OBSERVATION_DIR"

definition trigger_log :: "scan_state \<Rightarrow> effect" where
  "trigger_log sc =
     DebugLog (''[ObservationMasking] Triggering masking. Prunable tool tokens: ''
               @ toLocaleString (totalPrunableTokens sc) @ '' (> ''
               @ toLocaleString HYSTERESIS_THRESHOLD @ '')'')"

definition working_copy :: "store \<Rightarrow> nat \<Rightarrow> store" where
  "working_copy s history = s\<lparr>h_history := h_history s @ [h_history s ! history]\<rparr>"

definition loop_start :: "env \<Rightarrow> store \<Rightarrow> nat \<Rightarrow> loop_state" where
  "loop_start e s history =
     \<lparr>heap = working_copy s history, actualTokensSaved = 0,
      effects = trace (scan_of e s history) @ [trigger_log (scan_of e s history), Mkdir (observationDir_of e)]\<rparr>"

definition final_effects :: "scan_state \<Rightarrow> loop_state \<Rightarrow> effect list" where
  "final_effects sc ls =
     [DebugLog (''[ObservationMasking] Masked '' @ decimal (length (prunableParts sc))
                @ '' tool outputs. Saved ~'' @ toLocaleString_int (actualTokensSaved ls) @ '' tokens.''),
      Telemetry (totalPrunableTokens sc) (int (totalPrunableTokens sc) - actualTokensSaved ls)
        (length (prunableParts sc)) (totalPrunableTokens sc)]"

text \<open>The snippet of iteration \<open>k\<close> for a part whose response is \<open>fr\<close>.\<close>

definition snippet_for :: "env \<Rightarrow> string \<Rightarrow> nat \<Rightarrow> prunable \<Rightarrow> FunctionResponse \<Rightarrow> string" where
  "snippet_for e dir k item fr =
     formatMaskedSnippet e (content item) (path_join e dir (fileName_of e k fr))
       (case name fr of None \<Rightarrow> ''unknown_tool'' | Some n \<Rightarrow> n) (tokens item)"

text \<open>The store after a successful iteration: new part, new \<open>Part[]\<close> array, new
  \<open>Content\<close>, and the working copy pointing to it.\<close>

definition install :: "store \<Rightarrow> nat \<Rightarrow> nat \<Rightarrow> nat \<Rightarrow> nat \<Rightarrow> Part \<Rightarrow> store" where
  "install s nh ci pa pi newPart =
     \<lparr>h_history = (h_history s)[nh := (h_history s ! nh)[ci := length (h_content s)]],
      h_content = h_content s @ [(h_content s ! (h_history s ! nh ! ci))\<lparr>parts := Some (length (h_parts s))\<rparr>],
      h_parts = h_parts s @ [(h_parts s ! pa)[pi := length (h_part s)]],
      h_part = h_part s @ [newPart]\<rparr>"

text \<open>The offload loop on the view of the working copy: what iteration \<open>k\<close> makes of a
  part, the path it writes, and the loop on the parts, the tokens saved and the effects.\<close>

definition masked_at :: "env \<Rightarrow> string \<Rightarrow> nat \<Rightarrow> prunable \<Rightarrow> Part \<Rightarrow> Part" where
  "masked_at e dir k item p =
     (case functionResponse p of
        None \<Rightarrow> p
      | Some fr \<Rightarrow>
          (case newResponse_of (response fr) (snippet_for e dir k item fr) of
             Inl err \<Rightarrow> p
           | Inr nr \<Rightarrow> masked_part p fr nr))"

definition path_for :: "env \<Rightarrow> string \<Rightarrow> nat \<Rightarrow> Part \<Rightarrow> string" where
  "path_for e dir k p =
     (case functionResponse p of None \<Rightarrow> [] | Some fr \<Rightarrow> path_join e dir (fileName_of e k fr))"

definition run_item ::
  "env \<Rightarrow> string \<Rightarrow> nat \<Rightarrow> prunable \<Rightarrow> Part list list \<times> int \<times> effect list
     \<Rightarrow> Part list list \<times> int \<times> effect list" where
  "run_item e dir k item x =
     (case x of (V, saved, effs) \<Rightarrow>
        (let p = V ! contentIndex item ! partIndex item;
             p' = masked_at e dir k item p
         in (V[contentIndex item := (V ! contentIndex item)[partIndex item := p']],
             saved + (int (tokens item) - int (estimateTokenCountSync e [p'])),
             effs @ [WriteFile (path_for e dir k p) (content item), Estimate [p']])))"

fun run_items ::
  "env \<Rightarrow> string \<Rightarrow> nat \<Rightarrow> prunable list \<Rightarrow> Part list list \<times> int \<times> effect list
     \<Rightarrow> Part list list \<times> int \<times> effect list" where
  "run_items e dir k [] x = x"
| "run_items e dir k (item # items) x = run_items e dir (Suc k) items (run_item e dir k item x)"

definition valid_items :: "Part list list \<Rightarrow> prunable list \<Rightarrow> bool" where
  "valid_items V items =
     list_all (\<lambda>item. contentIndex item < length V \<and> partIndex item < length (V ! contentIndex item)
                 \<and> maskable (V ! contentIndex item ! partIndex item)) items"

definition abs_state :: "nat \<Rightarrow> loop_state \<Rightarrow> Part list list \<times> int \<times> effect list" where
  "abs_state nh ls = (history_view (heap ls) nh, actualTokensSaved ls, effects ls)"

text \<open>The effects that are calls of the estimator.\<close>

fun is_estimate :: "effect \<Rightarrow> bool" where
  "is_estimate (Estimate ps) = True"
| "is_estimate _ = False"

text \<open>Two turns of 20,000 and 50,000 characters; one small turn; the empty history; a
  file system whose second write fails.\<close>

definition two_turns :: store where
  "two_turns =
     \<lparr>h_history = [[0, 1]],
      h_content = [\<lparr>role = Some ''user'', parts = Some 0\<rparr>, \<lparr>role = Some ''user'', parts = Some 1\<rparr>],
      h_parts = [[0], [1]],
      h_part = [tool_part ''tool1'' (replicate 20000 (CHR ''A'')),
                tool_part ''tool2'' (replicate 50000 (CHR ''B''))]\<rparr>"

definition one_turn :: store where
  "one_turn =
     \<lparr>h_history = [[0]],
      h_content = [\<lparr>role = Some ''user'', parts = Some 0\<rparr>],
      h_parts = [[0]],
      h_part = [tool_part ''test_tool'' ''small output'']\<rparr>"

definition empty_history :: store where
  "empty_history = \<lparr>h_history = [[]], h_content = [], h_parts = [], h_part = []\<rparr>"

definition second_write_fails :: env where
  "second_write_fails = test_env\<lparr>io_fails := (\<lambda>k. k = 2)\<rparr>"

text \<open>The position of a prunable record in the history.\<close>

definition position :: "prunable \<Rightarrow> nat \<times> nat" where
  "position item = (contentIndex item, partIndex item)"

text \<open>The files written by a call, as pairs of path and text, in order.\<close>

definition written_files :: "effect list \<Rightarrow> (string \<times> string) list" where
  "written_files tr = concat (map (\<lambda>x. case x of WriteFile p c \<Rightarrow> [(p, c)] | _ \<Rightarrow> []) tr)"

text \<open>The snippet iteration \<open>k\<close> computes for a part, and the parts whose text is held by the
  first recognised key that is present in the payload (or whose payload is the text itself):
  on these the key read and the key replaced are the same.\<close>

definition snippet_at :: "env \<Rightarrow> string \<Rightarrow> nat \<Rightarrow> prunable \<Rightarrow> Part \<Rightarrow> string" where
  "snippet_at e dir k item p =
     (case functionResponse p of None \<Rightarrow> [] | Some fr \<Rightarrow> snippet_for e dir k item fr)"

definition text_key_first :: "Part \<Rightarrow> bool" where
  "text_key_first p =
     (case functionResponse p of
        None \<Rightarrow> False
      | Some fr \<Rightarrow>
          (case response fr of
             JStr s \<Rightarrow> s \<noteq> []
           | JObj kvs \<Rightarrow>
               (if has_key ''output'' kvs then string_at kvs ''output'' \<noteq> None
                else if has_key ''result'' kvs then string_at kvs ''result'' \<noteq> None
                else if has_key ''stdout'' kvs then string_at kvs ''stdout'' \<noteq> None
                else string_at kvs ''content'' \<noteq> None)
           | _ \<Rightarrow> False))"

text \<open>Two turns of 40,000 and 50,000 characters; and a history whose first turn holds two
  tool responses of 60,000 characters each.\<close>

definition idem_turns :: store where
  "idem_turns =
     \<lparr>h_history = [[0, 1]],
      h_content = [\<lparr>role = Some ''user'', parts = Some 0\<rparr>, \<lparr>role = Some ''user'', parts = Some 1\<rparr>],
      h_parts = [[0], [1]],
      h_part = [tool_part ''tool1'' (replicate 40000 (CHR ''A'')),
                tool_part ''tool2'' (replicate 50000 (CHR ''B''))]\<rparr>"

definition shared_turn :: store where
  "shared_turn =
     \<lparr>h_history = [[0, 1]],
      h_content = [\<lparr>role = Some ''user'', parts = Some 0\<rparr>, \<lparr>role = Some ''model'', parts = Some 1\<rparr>],
      h_parts = [[0, 1], [2]],
      h_part = [tool_part ''tool1'' (replicate 60000 (CHR ''A'')),
                tool_part ''tool2'' (replicate 60000 (CHR ''B'')),
                tool_part ''tool3'' (replicate 20000 (CHR ''C''))]\<rparr>"

text \<open>An estimator that counts the characters of every string held directly by the payload
  (as an estimator of the serialised part does, it sees all keys), and a history whose older
  turn holds 40,000 characters under \<open>result\<close> beside an \<open>output\<close> that is a number.\<close>

definition payload_estimate :: "Part list \<Rightarrow> nat" where
  "payload_estimate ps =
     sum_list (map (\<lambda>p. case functionResponse p of
                           None \<Rightarrow> 0
                         | Some fr \<Rightarrow>
                             (case response fr of
                                JStr s \<Rightarrow> length s
                              | JObj kvs \<Rightarrow>
                                  sum_list (map (\<lambda>kv. case snd kv of JStr s \<Rightarrow> length s | _ \<Rightarrow> 0) kvs)
                              | _ \<Rightarrow> 0)) ps)"

definition payload_env :: env where
  "payload_env = test_env\<lparr>estimateTokenCountSync := payload_estimate\<rparr>"

definition small_mixed_part :: Part where
  "small_mixed_part =
     \<lparr>functionResponse = Some \<lparr>name = Some ''tool1'',
         response = JObj [(''output'', JNum 42), (''result'', JStr (replicate 40000 (CHR ''A'')))],
         fr_rest = []\<rparr>,
      part_rest = []\<rparr>"

definition small_mixed_turns :: store where
  "small_mixed_turns =
     \<lparr>h_history = [[0, 1]],
      h_content = [\<lparr>role = Some ''user'', parts = Some 0\<rparr>, \<lparr>role = Some ''user'', parts = Some 1\<rparr>],
      h_parts = [[0], [1]],
      h_part = [small_mixed_part, tool_part ''tool2'' (replicate 50000 (CHR ''B''))]\<rparr>"

section \<open>Properties\<close>

subsection \<open>Auxiliary facts\<close>







lemma js_split_nl_length: "length (js_split_nl c) = Suc (length (filter (\<lambda>x. x = CHR 0x0A) c))"
  by (induction c) (auto split: list.splits)


lemma getObservationContent_None: "functionResponse p = None \<Longrightarrow> getObservationContent p = None"
  by (simp add: getObservationContent_def)

lemma scan_part_cases:
  "scan_part e i j p s = (if qualifying p then account s (p, entry_of e (i, j, p)) else s)"
  by (auto simp: scan_part_def qualifying_def account_def entry_of_def Let_def
      getObservationContent_None split: option.splits)

lemma scan_parts_foldl:
  "n \<le> length ps \<Longrightarrow>
   scan_parts e st i ps n s = foldl (visit e) s (map (\<lambda>j. (i, j, h_part st ! (ps ! j))) (rev [0..<n]))"
  by (induction n arbitrary: s) (simp_all add: visit_def)

lemma scan_history_foldl:
  "n \<le> length hist \<Longrightarrow>
   scan_history e st hist n s =
     foldl (visit e) s
       (concat (map (\<lambda>i. map (\<lambda>j. (i, j, h_part st ! (parts_of st (hist ! i) ! j)))
                          (rev [0..<length (parts_of st (hist ! i))]))
                 (rev [0..<n])))"
  by (induction n arbitrary: s) (simp_all add: scan_parts_foldl Let_def)

lemma scan_history_scan_order:
  "scan_history e st hist (length hist) s = foldl (visit e) s (scan_order st hist)"
  by (simp add: scan_history_foldl scan_order_def)

lemma foldl_visit_filter:
  "foldl (visit e) s xs =
   foldl account s (map (\<lambda>x. (snd (snd x), entry_of e x)) (filter (\<lambda>(i, j, p). qualifying p) xs))"
  by (induction xs arbitrary: s) (auto simp: visit_def scan_part_cases)

lemma account_after:
  assumes "protectionBoundaryReached s"
  shows "protectionBoundaryReached (account s x)"
    and "prunableParts (account s x) = prunableParts s @ [snd x]"
    and "totalPrunableTokens (account s x) = totalPrunableTokens s + tokens (snd x)"
    and "cumulativeToolTokens (account s x) = cumulativeToolTokens s"
    and "trace (account s x) = trace s @ [Estimate [fst x]]"
  using assms by (cases x; simp add: account_def Let_def)+

lemma foldl_account_after:
  "protectionBoundaryReached s \<Longrightarrow>
   protectionBoundaryReached (foldl account s q) \<and>
   prunableParts (foldl account s q) = prunableParts s @ map snd q \<and>
   totalPrunableTokens (foldl account s q) = totalPrunableTokens s + sum_list (map (\<lambda>y. tokens (snd y)) q) \<and>
   cumulativeToolTokens (foldl account s q) = cumulativeToolTokens s \<and>
   trace (foldl account s q) = trace s @ map (\<lambda>x. Estimate [fst x]) q"
proof (induction q arbitrary: s)
  case Nil
  then show ?case by simp
next
  case (Cons x q)
  from Cons.prems have b: "protectionBoundaryReached (account s x)" by (rule account_after)
  show ?case
    using Cons.IH[OF b] account_after(2-5)[OF Cons.prems, of x] by simp
qed

lemma account_before_cross:
  assumes "\<not> protectionBoundaryReached s"
    and "TOOL_PROTECTION_THRESHOLD < cumulativeToolTokens s + tokens (snd x)"
  shows "protectionBoundaryReached (account s x)"
    and "prunableParts (account s x) = prunableParts s @ [snd x]"
    and "totalPrunableTokens (account s x) = totalPrunableTokens s + tokens (snd x)"
    and "cumulativeToolTokens (account s x) = cumulativeToolTokens s + tokens (snd x)"
    and "trace (account s x) = trace s @ [Estimate [fst x]]"
  using assms by (cases x; simp add: account_def Let_def)+

lemma account_before_stay:
  assumes "\<not> protectionBoundaryReached s"
    and "\<not> TOOL_PROTECTION_THRESHOLD < cumulativeToolTokens s + tokens (snd x)"
  shows "\<not> protectionBoundaryReached (account s x)"
    and "prunableParts (account s x) = prunableParts s"
    and "totalPrunableTokens (account s x) = totalPrunableTokens s"
    and "cumulativeToolTokens (account s x) = cumulativeToolTokens s + tokens (snd x)"
    and "trace (account s x) = trace s @ [Estimate [fst x]]"
  using assms by (cases x; simp add: account_def Let_def)+

lemma foldl_account_before:
  "\<not> protectionBoundaryReached s \<Longrightarrow>
   \<exists>k\<le>length q.
     prunableParts (foldl account s q) = prunableParts s @ map snd (drop k q) \<and>
     totalPrunableTokens (foldl account s q)
       = totalPrunableTokens s + sum_list (map (\<lambda>y. tokens (snd y)) (drop k q)) \<and>
     (\<forall>m<k. cumulativeToolTokens s + sum_list (map (\<lambda>y. tokens (snd y)) (take (Suc m) q))
              \<le> TOOL_PROTECTION_THRESHOLD) \<and>
     (k < length q \<longrightarrow>
        TOOL_PROTECTION_THRESHOLD
          < cumulativeToolTokens s + sum_list (map (\<lambda>y. tokens (snd y)) (take (Suc k) q))) \<and>
     protectionBoundaryReached (foldl account s q) = (k < length q) \<and>
     cumulativeToolTokens (foldl account s q)
       = cumulativeToolTokens s + sum_list (map (\<lambda>y. tokens (snd y)) (take (Suc k) q)) \<and>
     trace (foldl account s q) = trace s @ map (\<lambda>x. Estimate [fst x]) q"
proof (induction q arbitrary: s)
  case Nil
  then show ?case by simp
next
  case (Cons x q)
  show ?case
  proof (cases "TOOL_PROTECTION_THRESHOLD < cumulativeToolTokens s + tokens (snd x)")
    case True
    note a = account_before_cross[OF Cons.prems True]
    from foldl_account_after[OF a(1), of q] a(2-5)
    have "prunableParts (foldl account s (x # q)) = prunableParts s @ map snd (drop 0 (x # q))"
      and "totalPrunableTokens (foldl account s (x # q))
            = totalPrunableTokens s + sum_list (map (\<lambda>y. tokens (snd y)) (drop 0 (x # q)))"
      and "protectionBoundaryReached (foldl account s (x # q)) = (0 < length (x # q))"
      and "cumulativeToolTokens (foldl account s (x # q))
            = cumulativeToolTokens s + sum_list (map (\<lambda>y. tokens (snd y)) (take (Suc 0) (x # q)))"
      and "trace (foldl account s (x # q)) = trace s @ map (\<lambda>x. Estimate [fst x]) (x # q)"
      by simp_all
    moreover have "0 < length (x # q) \<longrightarrow> TOOL_PROTECTION_THRESHOLD
          < cumulativeToolTokens s + sum_list (map (\<lambda>y. tokens (snd y)) (take (Suc 0) (x # q)))"
      using True by simp
    ultimately show ?thesis
      by (intro exI[of _ 0]) simp
  next
    case False
    note a = account_before_stay[OF Cons.prems False]
    from Cons.IH[OF a(1)] obtain k where k: "k \<le> length q"
      and pp: "prunableParts (foldl account (account s x) q)
                = prunableParts (account s x) @ map snd (drop k q)"
      and tt: "totalPrunableTokens (foldl account (account s x) q)
                = totalPrunableTokens (account s x) + sum_list (map (\<lambda>y. tokens (snd y)) (drop k q))"
      and bef: "\<forall>m<k. cumulativeToolTokens (account s x)
                  + sum_list (map (\<lambda>y. tokens (snd y)) (take (Suc m) q)) \<le> TOOL_PROTECTION_THRESHOLD"
      and cross: "k < length q \<longrightarrow> TOOL_PROTECTION_THRESHOLD
                  < cumulativeToolTokens (account s x) + sum_list (map (\<lambda>y. tokens (snd y)) (take (Suc k) q))"
      and br: "protectionBoundaryReached (foldl account (account s x) q) = (k < length q)"
      and cu: "cumulativeToolTokens (foldl account (account s x) q)
                = cumulativeToolTokens (account s x) + sum_list (map (\<lambda>y. tokens (snd y)) (take (Suc k) q))"
      and tr: "trace (foldl account (account s x) q)
                = trace (account s x) @ map (\<lambda>x. Estimate [fst x]) q"
      by blast
    have bef': "\<forall>m<Suc k. cumulativeToolTokens s
                  + sum_list (map (\<lambda>y. tokens (snd y)) (take (Suc m) (x # q))) \<le> TOOL_PROTECTION_THRESHOLD"
    proof (intro allI impI)
      fix m assume m: "m < Suc k"
      show "cumulativeToolTokens s + sum_list (map (\<lambda>y. tokens (snd y)) (take (Suc m) (x # q)))
              \<le> TOOL_PROTECTION_THRESHOLD"
      proof (cases m)
        case 0
        then show ?thesis using False by simp
      next
        case (Suc m')
        with m have "m' < k" by simp
        with bef a(4) Suc show ?thesis by (simp add: add.assoc)
      qed
    qed
    show ?thesis
      using k pp tt bef' cross br cu tr a(2-5)
      by (intro exI[of _ "Suc k"]) (simp add: add.assoc)
  qed
qed

lemma js_includes_sublist: "js_includes s n = sublist n s"
  by (induction s) (simp_all add: sublist_Cons_right)

lemma not_masked_replicate:
  "c \<notin> set ''[Observation Masked]'' \<Longrightarrow> \<not> isAlreadyMasked (replicate n c)"
proof
  assume c: "c \<notin> set ''[Observation Masked]''" and "isAlreadyMasked (replicate n c)"
  then have "sublist ''[Observation Masked]'' (replicate n c)"
    by (simp add: isAlreadyMasked_def js_includes_sublist)
  then have "set ''[Observation Masked]'' \<subseteq> set (replicate n c)"
    by (rule set_mono_sublist)
  with c show False by auto
qed

lemma content_tool_part: "getObservationContent (tool_part n out) = Some out"
  by (simp add: getObservationContent_def tool_part_def string_at_def)

lemma qualifying_tool_part:
  "0 < n \<Longrightarrow> c \<notin> set ''[Observation Masked]'' \<Longrightarrow> qualifying (tool_part t (replicate n c))"
  by (simp add: qualifying_def content_tool_part not_masked_replicate)

lemma obs_three_turns: "observations test_env three_turns [0, 1, 2] =
   [\<lparr>contentIndex = 2, partIndex = 0, tokens = 20000, content = replicate 20000 (CHR ''C'')\<rparr>,
    \<lparr>contentIndex = 1, partIndex = 0, tokens = 60000, content = replicate 60000 (CHR ''B'')\<rparr>,
    \<lparr>contentIndex = 0, partIndex = 0, tokens = 60000, content = replicate 60000 (CHR ''A'')\<rparr>]"
  by (simp add: observations_def scan_order_def three_turns_def parts_of_def qualifying_tool_part
      entry_of_def test_env_def chars_estimate_def content_tool_part)

subsection \<open>The scan\<close>

text \<open>
  Claim C1. Let \<open>q\<close> be the non-masked, non-empty tool observations of the history in scan
  order (turns last to first, parts last to first), each with its estimated tokens. The scan
  keeps a running counter of the tokens seen. There is a boundary index \<open>k\<close>: every prefix of \<open>q\<close>
  that ends before \<open>k\<close> sums to at most 50,000 tokens, the observation at \<open>k\<close> is the first
  whose addition makes the counter exceed 50,000, and the prunable list is exactly \<open>q\<close> from
  \<open>k\<close> on (the crossing observation and every older one), with the prunable total the sum
  of their tokens. No observation before \<open>k\<close> is in the list.
\<close>

theorem scan_boundary:
  "\<exists>k\<le>length (observations e st hist).
     prunableParts (scan_history e st hist (length hist) init_scan)
       = drop k (observations e st hist) \<and>
     totalPrunableTokens (scan_history e st hist (length hist) init_scan)
       = sum_list (map tokens (drop k (observations e st hist))) \<and>
     cumulativeToolTokens (scan_history e st hist (length hist) init_scan)
       = sum_list (map tokens (take (Suc k) (observations e st hist))) \<and>
     (\<forall>m<k. sum_list (map tokens (take (Suc m) (observations e st hist))) \<le> 50000) \<and>
     (k < length (observations e st hist) \<longrightarrow>
        50000 < sum_list (map tokens (take (Suc k) (observations e st hist))))"
proof -
  define xs where "xs = filter (\<lambda>(i, j, p). qualifying p) (scan_order st hist)"
  define q where "q = map (\<lambda>x. (snd (snd x), entry_of e x)) xs"
  have obs: "observations e st hist = map snd q"
    by (simp add: observations_def q_def xs_def comp_def)
  have sc: "scan_history e st hist (length hist) init_scan = foldl account init_scan q"
    by (simp add: scan_history_scan_order foldl_visit_filter q_def xs_def)
  have init: "\<not> protectionBoundaryReached init_scan" "prunableParts init_scan = []"
    "totalPrunableTokens init_scan = 0" "cumulativeToolTokens init_scan = 0"
    by (simp_all add: init_scan_def)
  have sums: "\<And>n. sum_list (map (\<lambda>y. tokens (snd y)) (take n q)) = sum_list (map tokens (take n (map snd q)))"
    "\<And>n. sum_list (map (\<lambda>y. tokens (snd y)) (drop n q)) = sum_list (map tokens (drop n (map snd q)))"
    by (simp_all add: take_map drop_map comp_def)
  from foldl_account_before[OF init(1), of q] obtain k where
    "k \<le> length q"
    "prunableParts (foldl account init_scan q) = prunableParts init_scan @ map snd (drop k q)"
    "totalPrunableTokens (foldl account init_scan q)
       = totalPrunableTokens init_scan + sum_list (map (\<lambda>y. tokens (snd y)) (drop k q))"
    "\<forall>m<k. cumulativeToolTokens init_scan + sum_list (map (\<lambda>y. tokens (snd y)) (take (Suc m) q))
              \<le> TOOL_PROTECTION_THRESHOLD"
    "k < length q \<longrightarrow> TOOL_PROTECTION_THRESHOLD
          < cumulativeToolTokens init_scan + sum_list (map (\<lambda>y. tokens (snd y)) (take (Suc k) q))"
    "cumulativeToolTokens (foldl account init_scan q)
       = cumulativeToolTokens init_scan + sum_list (map (\<lambda>y. tokens (snd y)) (take (Suc k) q))"
    by blast
  then show ?thesis
    unfolding obs sc init sums TOOL_PROTECTION_THRESHOLD_def
    by (intro exI[of _ k]) (simp add: drop_map)
qed

theorem scan_boundary_witness:
  "prunableParts (scan_history test_env three_turns [0, 1, 2] (length [0, 1, 2::nat]) init_scan) =
   [\<lparr>contentIndex = 1, partIndex = 0, tokens = 60000, content = replicate 60000 (CHR ''B'')\<rparr>,
    \<lparr>contentIndex = 0, partIndex = 0, tokens = 60000, content = replicate 60000 (CHR ''A'')\<rparr>]"
proof -
  let ?q = "observations test_env three_turns [0, 1, 2]"
  let ?sc = "scan_history test_env three_turns [0, 1, 2] (length [0, 1, 2::nat]) init_scan"
  from scan_boundary[of test_env three_turns "[0, 1, 2]"] obtain k where
    k: "k \<le> length ?q"
    and pp: "prunableParts ?sc = drop k ?q"
    and bef: "\<forall>m<k. sum_list (map tokens (take (Suc m) ?q)) \<le> 50000"
    and cross: "k < length ?q \<longrightarrow> 50000 < sum_list (map tokens (take (Suc k) ?q))"
    by blast
  have "k \<noteq> 0"
  proof
    assume "k = 0"
    with cross[unfolded obs_three_turns] show False by simp
  qed
  moreover have "\<not> 1 < k" using bef[unfolded obs_three_turns, rule_format, of 1] by auto
  ultimately have "k = 1" by simp
  with pp[unfolded obs_three_turns] show ?thesis by simp
qed

subsection \<open>The replacement snippet\<close>



lemma scan_history_account:
  "scan_history e st hist (length hist) s =
     foldl account s (map (\<lambda>x. (snd (snd x), entry_of e x))
                          (filter (\<lambda>(i, j, p). qualifying p) (scan_order st hist)))"
  by (simp add: scan_history_scan_order foldl_visit_filter)

lemma prunable_subset_observations:
  "set (prunableParts (scan_history e st hist (length hist) init_scan)) \<subseteq> set (observations e st hist)"
proof -
  define q where "q = map (\<lambda>x. (snd (snd x), entry_of e x))
                          (filter (\<lambda>(i, j, p). qualifying p) (scan_order st hist))"
  have obs: "observations e st hist = map snd q"
    by (simp add: observations_def q_def comp_def)
  have "\<not> protectionBoundaryReached init_scan" "prunableParts init_scan = []"
    by (simp_all add: init_scan_def)
  with foldl_account_before[of init_scan q] obtain k where
    "prunableParts (foldl account init_scan q) = map snd (drop k q)"
    by auto
  then have "set (prunableParts (foldl account init_scan q)) \<subseteq> set (map snd q)"
    by (metis drop_map set_drop_subset)
  then show ?thesis
    by (simp add: scan_history_account obs q_def)
qed

lemma observation_position:
  assumes "item \<in> set (observations e st hist)"
  shows "contentIndex item < length hist \<and>
         partIndex item < length (parts_of st (hist ! contentIndex item)) \<and>
         qualifying (h_part st ! (parts_of st (hist ! contentIndex item) ! partIndex item)) \<and>
         item = entry_of e (contentIndex item, partIndex item,
                  h_part st ! (parts_of st (hist ! contentIndex item) ! partIndex item))"
  using assms by (auto simp: observations_def scan_order_def entry_of_def)

subsection \<open>Observations that carry the marker text\<close>

text \<open>
  Claim C9. The "already masked" test is substring containment: a tool observation whose text
  contains \<open>[Observation Masked]\<close> anywhere, whoever wrote it, is skipped by the scan. The
  scan state is unchanged by the visit (nothing is added to the 50,000 budget, the estimator is
  not called) and the position of the part is never in the prunable list.
\<close>

theorem marker_excluded:
  assumes "getObservationContent p = Some (pre @ ''[Observation Masked]'' @ post)"
  shows "scan_part e i j p s = s \<and>
         (p = h_part st ! (parts_of st (hist ! i) ! j) \<longrightarrow>
            (\<forall>item\<in>set (prunableParts (scan_history e st hist (length hist) init_scan)).
               \<not> (contentIndex item = i \<and> partIndex item = j)))"
proof -
  have "isAlreadyMasked (pre @ ''[Observation Masked]'' @ post)"
    unfolding isAlreadyMasked_def js_includes_sublist by (rule sublist_appendI)
  with assms have nq: "\<not> qualifying p"
    by (simp add: qualifying_def)
  then have "scan_part e i j p s = s"
    by (simp add: scan_part_cases)
  moreover have "\<not> (contentIndex item = i \<and> partIndex item = j)"
    if p: "p = h_part st ! (parts_of st (hist ! i) ! j)"
      and item: "item \<in> set (prunableParts (scan_history e st hist (length hist) init_scan))"
    for item
  proof
    assume "contentIndex item = i \<and> partIndex item = j"
    moreover from item have "item \<in> set (observations e st hist)"
      using prunable_subset_observations by blast
    ultimately have "qualifying p"
      using observation_position[of item e st hist] p by simp
    with nq show False ..
  qed
  ultimately show ?thesis by blast
qed

theorem marker_excluded_witness:
  "scan_part test_env 0 0 marker_part init_scan = init_scan \<and>
   (0, 0) \<notin> (\<lambda>item. (contentIndex item, partIndex item)) `
      set (prunableParts (scan_history test_env marker_turns [0, 1, 2] (length [0, 1, 2::nat]) init_scan))"
proof -
  have c: "getObservationContent marker_part = Some (''log: '' @ ''[Observation Masked]'' @ '' seen'')"
    by (simp add: marker_part_def content_tool_part)
  have p: "marker_part = h_part marker_turns ! (parts_of marker_turns ([0, 1, 2] ! 0) ! 0)"
    by (simp add: marker_turns_def parts_of_def)
  from marker_excluded[OF c, of test_env 0 0 init_scan marker_turns "[0, 1, 2]"] p
  have "scan_part test_env 0 0 marker_part init_scan = init_scan"
    and "\<forall>item\<in>set (prunableParts
            (scan_history test_env marker_turns [0, 1, 2] (length [0, 1, 2::nat]) init_scan)).
          \<not> (contentIndex item = 0 \<and> partIndex item = 0)"
    by blast+
  then show ?thesis by auto
qed


lemma newResponse_of_ok:
  "payload_ok r \<Longrightarrow> \<exists>nr. newResponse_of r snip = Inr nr \<and> payload_ok nr"
  by (cases r) (auto simp: newResponse_of_def payload_ok_def Let_def)

lemma preserves_lengths:
  "preserves s0 s \<Longrightarrow> length (h_history s0) \<le> length (h_history s) \<and>
     length (h_content s0) \<le> length (h_content s) \<and>
     length (h_parts s0) \<le> length (h_parts s) \<and> length (h_part s0) \<le> length (h_part s)"
  unfolding preserves_def
  by (metis length_take min.cobounded1)

lemma mask_item_success:
  assumes nh: "nh < length (h_history (heap ls))"
    and ci: "contentIndex item < length (h_history (heap ls) ! nh)"
    and pa: "parts (h_content (heap ls) ! (h_history (heap ls) ! nh ! contentIndex item)) = Some pa"
    and pi: "partIndex item < length (h_parts (heap ls) ! pa)"
    and fr: "functionResponse (h_part (heap ls) ! (h_parts (heap ls) ! pa ! partIndex item)) = Some fr"
    and io: "\<not> io_fails e (Suc k)"
    and nr: "newResponse_of (response fr) (snippet_for e dir k item fr) = Inr nr"
  shows "mask_item e dir nh k item ls =
     (None,
      \<lparr>heap = \<lparr>h_history = (h_history (heap ls))
                   [nh := (h_history (heap ls) ! nh)[contentIndex item := length (h_content (heap ls))]],
               h_content = h_content (heap ls) @
                   [(h_content (heap ls) ! (h_history (heap ls) ! nh ! contentIndex item))
                      \<lparr>parts := Some (length (h_parts (heap ls)))\<rparr>],
               h_parts = h_parts (heap ls) @
                   [(h_parts (heap ls) ! pa)[partIndex item := length (h_part (heap ls))]],
               h_part = h_part (heap ls) @
                   [masked_part (h_part (heap ls) ! (h_parts (heap ls) ! pa ! partIndex item)) fr nr]\<rparr>,
       actualTokensSaved = actualTokensSaved ls + (int (tokens item)
          - int (estimateTokenCountSync e
                  [masked_part (h_part (heap ls) ! (h_parts (heap ls) ! pa ! partIndex item)) fr nr])),
       effects = effects ls @
          [WriteFile (path_join e dir (fileName_of e k fr)) (content item),
           Estimate [masked_part (h_part (heap ls) ! (h_parts (heap ls) ! pa ! partIndex item)) fr nr]]\<rparr>)"
  using assms
  by (simp add: mask_item_def Let_def snippet_for_def list_update_append nth_append)

lemma mask_empty:
  "h_history s ! history = [] \<Longrightarrow>
   mask e s history = (Inr \<lparr>newHistory = history, maskedCount = 0, tokensSaved = 0\<rparr>, s, [])"
  by (simp add: mask_def)

lemma mask_below:
  "h_history s ! history \<noteq> [] \<Longrightarrow>
   totalPrunableTokens (scan_of e s history) < HYSTERESIS_THRESHOLD \<Longrightarrow>
   mask e s history = (Inr \<lparr>newHistory = history, maskedCount = 0, tokensSaved = 0\<rparr>, s,
                       trace (scan_of e s history))"
  by (simp add: mask_def scan_of_def Let_def)

lemma mask_mkdir_fails:
  "h_history s ! history \<noteq> [] \<Longrightarrow>
   \<not> totalPrunableTokens (scan_of e s history) < HYSTERESIS_THRESHOLD \<Longrightarrow>
   io_fails e 0 \<Longrightarrow>
   mask e s history = (Inl IOError, working_copy s history,
                       trace (scan_of e s history) @ [trigger_log (scan_of e s history)])"
  by (simp add: mask_def scan_of_def Let_def working_copy_def trigger_log_def)

lemma mask_triggers:
  "h_history s ! history \<noteq> [] \<Longrightarrow>
   \<not> totalPrunableTokens (scan_of e s history) < HYSTERESIS_THRESHOLD \<Longrightarrow>
   \<not> io_fails e 0 \<Longrightarrow>
   mask_loop e (observationDir_of e) (length (h_history s)) 0 (prunableParts (scan_of e s history))
     (loop_start e s history) = (r1, ls1) \<Longrightarrow>
   mask e s history =
     (case r1 of
        Some err \<Rightarrow> (Inl err, heap ls1, effects ls1)
      | None \<Rightarrow>
          (Inr \<lparr>newHistory = length (h_history s),
                maskedCount = length (prunableParts (scan_of e s history)),
                tokensSaved = actualTokensSaved ls1\<rparr>,
           heap ls1, effects ls1 @ final_effects (scan_of e s history) ls1))"
  by (simp add: mask_def scan_of_def Let_def working_copy_def trigger_log_def loop_start_def
      observationDir_of_def final_effects_def split: option.splits)

lemma mask_item_preserves:
  assumes "mask_item e dir nh k item ls = (r, ls')"
    and "preserves s0 (heap ls)"
    and "length (h_history s0) \<le> nh"
  shows "preserves s0 (heap ls')"
proof -
  from assms(2) have len: "length (h_history s0) \<le> length (h_history (heap ls))"
    "length (h_content s0) \<le> length (h_content (heap ls))"
    "length (h_parts s0) \<le> length (h_parts (heap ls))"
    "length (h_part s0) \<le> length (h_part (heap ls))"
    using preserves_lengths by blast+
  from assms(2) have tk: "take (length (h_history s0)) (h_history (heap ls)) = h_history s0"
    "take (length (h_content s0)) (h_content (heap ls)) = h_content s0"
    "take (length (h_parts s0)) (h_parts (heap ls)) = h_parts s0"
    "take (length (h_part s0)) (h_part (heap ls)) = h_part s0"
    by (simp_all add: preserves_def)
  show ?thesis
    using assms(1) assms(3) len tk
    by (auto simp: mask_item_def Let_def preserves_def list_update_append
        split: if_splits option.splits sum.splits)
qed

lemma mask_loop_preserves:
  "mask_loop e dir nh k items ls = (r, ls') \<Longrightarrow> preserves s0 (heap ls) \<Longrightarrow>
   length (h_history s0) \<le> nh \<Longrightarrow> preserves s0 (heap ls')"
proof (induction items arbitrary: k ls)
  case Nil
  then show ?case by simp
next
  case (Cons item items)
  obtain r1 ls1 where step: "mask_item e dir nh k item ls = (r1, ls1)"
    by (cases "mask_item e dir nh k item ls")
  from mask_item_preserves[OF step Cons.prems(2,3)] have p1: "preserves s0 (heap ls1)" .
  show ?case
  proof (cases r1)
    case None
    with Cons.prems(1) step have "mask_loop e dir nh (Suc k) items ls1 = (r, ls')" by simp
    from Cons.IH[OF this p1 Cons.prems(3)] show ?thesis .
  next
    case (Some err)
    with Cons.prems(1) step have "ls' = ls1" by simp
    with p1 show ?thesis by simp
  qed
qed

lemma preserves_refl: "preserves s s"
  by (simp add: preserves_def)

lemma mask_preserves:
  assumes "mask e s history = (r, s', tr)"
  shows "preserves s s'"
proof -
  have p1: "preserves s (working_copy s history)"
    by (simp add: preserves_def working_copy_def)
  consider (empty) "h_history s ! history = []"
    | (below) "h_history s ! history \<noteq> []"
        "totalPrunableTokens (scan_of e s history) < HYSTERESIS_THRESHOLD"
    | (mkdir) "h_history s ! history \<noteq> []"
        "\<not> totalPrunableTokens (scan_of e s history) < HYSTERESIS_THRESHOLD" "io_fails e 0"
    | (loop) "h_history s ! history \<noteq> []"
        "\<not> totalPrunableTokens (scan_of e s history) < HYSTERESIS_THRESHOLD" "\<not> io_fails e 0"
    by blast
  then show ?thesis
  proof cases
    case empty
    with assms show ?thesis by (simp add: mask_empty preserves_refl)
  next
    case below
    with assms show ?thesis by (simp add: mask_below preserves_refl)
  next
    case mkdir
    with assms p1 show ?thesis by (auto simp: mask_mkdir_fails)
  next
    case loop
    obtain r1 ls1 where l: "mask_loop e (observationDir_of e) (length (h_history s)) 0
        (prunableParts (scan_of e s history)) (loop_start e s history) = (r1, ls1)"
      by (cases "mask_loop e (observationDir_of e) (length (h_history s)) 0
        (prunableParts (scan_of e s history)) (loop_start e s history)")
    have "preserves s (heap (loop_start e s history))"
      using p1 by (simp add: loop_start_def)
    from mask_loop_preserves[OF l this] have "preserves s (heap ls1)" by simp
    moreover have "s' = heap ls1"
      using assms mask_triggers[OF loop l] by (auto split: option.splits)
    ultimately show ?thesis by simp
  qed
qed

lemma wf_historyD:
  assumes "wf_history s a" and "ca \<in> set (h_history s ! a)"
  shows "ca < length (h_content s)"
    and "parts (h_content s ! ca) = Some pa \<Longrightarrow> pa < length (h_parts s)"
    and "parts (h_content s ! ca) = Some pa \<Longrightarrow> p \<in> set (h_parts s ! pa) \<Longrightarrow> p < length (h_part s)"
  using assms by (auto simp: wf_history_def list_all_iff split: option.splits)

lemma turn_view_install_old:
  assumes "ca < length (h_content s)"
    and "\<And>pa'. parts (h_content s ! ca) = Some pa' \<Longrightarrow> pa' < length (h_parts s)"
    and "\<And>pa' p. parts (h_content s ! ca) = Some pa' \<Longrightarrow> p \<in> set (h_parts s ! pa') \<Longrightarrow> p < length (h_part s)"
  shows "turn_view (install s nh ci pa pi newPart) ca = turn_view s ca"
proof (cases "parts (h_content s ! ca)")
  case None
  with assms(1) show ?thesis
    by (simp add: turn_view_def parts_of_def install_def nth_append)
next
  case (Some pa')
  with assms have a: "pa' < length (h_parts s)" and b: "\<forall>p\<in>set (h_parts s ! pa'). p < length (h_part s)"
    by blast+
  from Some assms(1) a have "parts_of (install s nh ci pa pi newPart) ca = h_parts s ! pa'"
    by (simp add: parts_of_def install_def nth_append)
  moreover from Some have "parts_of s ca = h_parts s ! pa'"
    by (simp add: parts_of_def)
  ultimately show ?thesis
    using b by (simp add: turn_view_def install_def nth_append)
qed

lemma turn_view_install_new:
  assumes "parts (h_content s ! (h_history s ! nh ! ci)) = Some pa"
    and "\<forall>p\<in>set (h_parts s ! pa). p < length (h_part s)"
  shows "turn_view (install s nh ci pa pi newPart) (length (h_content s))
           = (turn_view s (h_history s ! nh ! ci))[pi := newPart]"
proof -
  have "parts_of (install s nh ci pa pi newPart) (length (h_content s))
          = (h_parts s ! pa)[pi := length (h_part s)]"
    by (simp add: parts_of_def install_def)
  moreover from assms(1) have "parts_of s (h_history s ! nh ! ci) = h_parts s ! pa"
    by (simp add: parts_of_def)
  moreover have "map (\<lambda>p. h_part (install s nh ci pa pi newPart) ! p) ((h_parts s ! pa)[pi := length (h_part s)])
      = (map (\<lambda>p. h_part s ! p) (h_parts s ! pa))[pi := newPart]"
    using assms(2) by (simp add: map_update install_def nth_append cong: map_cong)
  ultimately show ?thesis
    by (simp add: turn_view_def)
qed

lemma history_view_install:
  assumes wf: "wf_history s nh"
    and ci: "ci < length (h_history s ! nh)"
    and pa: "parts (h_content s ! (h_history s ! nh ! ci)) = Some pa"
  shows "history_view (install s nh ci pa pi newPart) nh
           = (history_view s nh)[ci := (history_view s nh ! ci)[pi := newPart]]"
proof -
  from wf have nh: "nh < length (h_history s)" by (simp add: wf_history_def)
  from ci have mem: "h_history s ! nh ! ci \<in> set (h_history s ! nh)" by simp
  have old: "turn_view (install s nh ci pa pi newPart) ca = turn_view s ca"
    if "ca \<in> set (h_history s ! nh)" for ca
    using wf_historyD[OF wf that] by (intro turn_view_install_old) blast+
  have new: "turn_view (install s nh ci pa pi newPart) (length (h_content s))
           = (turn_view s (h_history s ! nh ! ci))[pi := newPart]"
    using wf_historyD(3)[OF wf mem pa] by (intro turn_view_install_new[OF pa]) blast
  have "history_view (install s nh ci pa pi newPart) nh
      = map (turn_view (install s nh ci pa pi newPart)) ((h_history s ! nh)[ci := length (h_content s)])"
    using nh by (simp add: history_view_def install_def)
  also have "\<dots> = (map (turn_view (install s nh ci pa pi newPart)) (h_history s ! nh))
                     [ci := turn_view (install s nh ci pa pi newPart) (length (h_content s))]"
    by (simp add: map_update)
  also have "map (turn_view (install s nh ci pa pi newPart)) (h_history s ! nh)
      = map (turn_view s) (h_history s ! nh)"
    using old by (simp cong: map_cong)
  finally show ?thesis
    using new ci by (simp add: history_view_def)
qed

lemma wf_history_install:
  assumes wf: "wf_history s nh"
    and ci: "ci < length (h_history s ! nh)"
    and pa: "parts (h_content s ! (h_history s ! nh ! ci)) = Some pa"
  shows "wf_history (install s nh ci pa pi newPart) nh"
proof -
  from wf have nh: "nh < length (h_history s)" by (simp add: wf_history_def)
  from ci have mem: "h_history s ! nh ! ci \<in> set (h_history s ! nh)" by simp
  note d = wf_historyD[OF wf]
  have pal: "pa < length (h_parts s)" using d(2)[OF mem pa] .
  have pall: "\<forall>p\<in>set (h_parts s ! pa). p < length (h_part s)" using d(3)[OF mem pa] by blast
  have "ca < length (h_content (install s nh ci pa pi newPart)) \<and>
        (case parts (h_content (install s nh ci pa pi newPart) ! ca) of
           None \<Rightarrow> True
         | Some pa' \<Rightarrow> pa' < length (h_parts (install s nh ci pa pi newPart)) \<and>
             list_all (\<lambda>p. p < length (h_part (install s nh ci pa pi newPart)))
                      (h_parts (install s nh ci pa pi newPart) ! pa'))"
    if "ca \<in> set ((h_history s ! nh)[ci := length (h_content s)])" for ca
  proof (cases "ca = length (h_content s)")
    case True
    have "p < Suc (length (h_part s))" if "p \<in> set ((h_parts s ! pa)[pi := length (h_part s)])" for p
      using that pall set_update_subset_insert[of "h_parts s ! pa" pi "length (h_part s)"]
      by (auto simp: less_Suc_eq)
    with True show ?thesis
      by (simp add: install_def list_all_iff)
  next
    case False
    with that have m: "ca \<in> set (h_history s ! nh)"
      using set_update_subset_insert[of "h_history s ! nh" ci "length (h_content s)"] by auto
    have l: "ca < length (h_content s)" using d(1)[OF m] .
    show ?thesis
    proof (cases "parts (h_content s ! ca)")
      case None
      with l show ?thesis by (simp add: install_def nth_append)
    next
      case (Some pa')
      from d(2)[OF m Some] d(3)[OF m Some] l Some show ?thesis
        by (auto simp: install_def nth_append list_all_iff less_Suc_eq)
    qed
  qed
  moreover have "h_history (install s nh ci pa pi newPart) ! nh
      = (h_history s ! nh)[ci := length (h_content s)]"
    and "nh < length (h_history (install s nh ci pa pi newPart))"
    using nh by (simp_all add: install_def)
  ultimately show ?thesis
    by (simp add: wf_history_def list_all_iff)
qed

lemma view_positions:
  assumes ci: "ci < length (history_view s nh)"
    and pi: "pi < length (history_view s nh ! ci)"
  shows "ci < length (h_history s ! nh)"
    and "\<exists>pa. parts (h_content s ! (h_history s ! nh ! ci)) = Some pa \<and> pi < length (h_parts s ! pa)
           \<and> history_view s nh ! ci ! pi = h_part s ! (h_parts s ! pa ! pi)"
proof -
  from ci show c: "ci < length (h_history s ! nh)" by (simp add: history_view_def)
  with pi have "pi < length (parts_of s (h_history s ! nh ! ci))"
    by (simp add: history_view_def turn_view_def)
  with c show "\<exists>pa. parts (h_content s ! (h_history s ! nh ! ci)) = Some pa \<and> pi < length (h_parts s ! pa)
           \<and> history_view s nh ! ci ! pi = h_part s ! (h_parts s ! pa ! pi)"
    by (cases "parts (h_content s ! (h_history s ! nh ! ci))")
      (simp_all add: parts_of_def history_view_def turn_view_def)
qed

lemma maskableD:
  "maskable p \<Longrightarrow> \<exists>fr. functionResponse p = Some fr \<and> payload_ok (response fr)"
  by (auto simp: maskable_def split: option.splits)

lemma mask_item_refines:
  assumes wf: "wf_history (heap ls) nh"
    and ci: "contentIndex item < length (history_view (heap ls) nh)"
    and pi: "partIndex item < length (history_view (heap ls) nh ! contentIndex item)"
    and mk: "maskable (history_view (heap ls) nh ! contentIndex item ! partIndex item)"
    and io: "\<not> io_fails e (Suc k)"
  shows "\<exists>ls'. mask_item e dir nh k item ls = (None, ls') \<and> wf_history (heap ls') nh \<and>
           abs_state nh ls' = run_item e dir k item (abs_state nh ls)"
proof -
  let ?s = "heap ls"
  let ?p = "history_view ?s nh ! contentIndex item ! partIndex item"
  from wf have nh: "nh < length (h_history ?s)" by (simp add: wf_history_def)
  from view_positions[OF ci pi] obtain pa where
    c: "contentIndex item < length (h_history ?s ! nh)"
    and pa: "parts (h_content ?s ! (h_history ?s ! nh ! contentIndex item)) = Some pa"
    and pl: "partIndex item < length (h_parts ?s ! pa)"
    and p: "?p = h_part ?s ! (h_parts ?s ! pa ! partIndex item)"
    by blast
  from maskableD[OF mk] obtain fr where fr: "functionResponse ?p = Some fr"
    and ok: "payload_ok (response fr)"
    by blast
  from newResponse_of_ok[OF ok] obtain nr where
    nr: "newResponse_of (response fr) (snippet_for e dir k item fr) = Inr nr"
    by blast
  define ls' where "ls' =
      \<lparr>heap = install ?s nh (contentIndex item) pa (partIndex item) (masked_part ?p fr nr),
       actualTokensSaved = actualTokensSaved ls
          + (int (tokens item) - int (estimateTokenCountSync e [masked_part ?p fr nr])),
       effects = effects ls @ [WriteFile (path_join e dir (fileName_of e k fr)) (content item),
                               Estimate [masked_part ?p fr nr]]\<rparr>"
  have step: "mask_item e dir nh k item ls = (None, ls')"
    using mask_item_success[OF nh c pa pl fr[unfolded p] io nr]
    by (simp add: ls'_def install_def p)
  have w: "wf_history (heap ls') nh"
    using wf_history_install[OF wf c pa] by (simp add: ls'_def)
  have v: "history_view (heap ls') nh
      = (history_view ?s nh)[contentIndex item :=
           (history_view ?s nh ! contentIndex item)[partIndex item := masked_part ?p fr nr]]"
    using history_view_install[OF wf c pa] by (simp add: ls'_def)
  have m: "masked_at e dir k item ?p = masked_part ?p fr nr"
    by (simp add: masked_at_def fr nr)
  have "abs_state nh ls' = run_item e dir k item (abs_state nh ls)"
    by (simp add: abs_state_def run_item_def Let_def v m path_for_def fr) (simp add: ls'_def)
  with step w show ?thesis by blast
qed

lemma mask_item_io_fails:
  assumes wf: "wf_history (heap ls) nh"
    and ci: "contentIndex item < length (history_view (heap ls) nh)"
    and pi: "partIndex item < length (history_view (heap ls) nh ! contentIndex item)"
    and mk: "maskable (history_view (heap ls) nh ! contentIndex item ! partIndex item)"
    and io: "io_fails e (Suc k)"
  shows "mask_item e dir nh k item ls = (Some IOError, ls)"
proof -
  let ?s = "heap ls"
  from view_positions[OF ci pi] obtain pa where
    c: "contentIndex item < length (h_history ?s ! nh)"
    and pa: "parts (h_content ?s ! (h_history ?s ! nh ! contentIndex item)) = Some pa"
    and pl: "partIndex item < length (h_parts ?s ! pa)"
    and p: "history_view ?s nh ! contentIndex item ! partIndex item
              = h_part ?s ! (h_parts ?s ! pa ! partIndex item)"
    by blast
  from mk p obtain fr where "functionResponse (h_part ?s ! (h_parts ?s ! pa ! partIndex item)) = Some fr"
    by (auto simp: maskable_def split: option.splits)
  with c pa pl io show ?thesis
    by (simp add: mask_item_def Let_def)
qed

lemma masked_part_maskable: "payload_ok nr \<Longrightarrow> maskable (masked_part p fr nr)"
  by (simp add: maskable_def masked_part_def)

lemma masked_at_maskable: "maskable p \<Longrightarrow> maskable (masked_at e dir k item p)"
proof -
  assume m: "maskable p"
  from maskableD[OF m] obtain fr where fr: "functionResponse p = Some fr"
    and ok: "payload_ok (response fr)" by blast
  from newResponse_of_ok[OF ok] obtain nr where
    "newResponse_of (response fr) (snippet_for e dir k item fr) = Inr nr" "payload_ok nr" by blast
  then show ?thesis
    by (simp add: masked_at_def fr masked_part_maskable)
qed

lemma valid_items_update:
  assumes v: "valid_items V items" and ci: "ci < length V" and pi: "pi < length (V ! ci)"
    and m: "maskable p'"
  shows "valid_items (V[ci := (V ! ci)[pi := p']]) items"
  unfolding valid_items_def list_all_iff
proof
  fix item assume "item \<in> set items"
  with v have a: "contentIndex item < length V" "partIndex item < length (V ! contentIndex item)"
    "maskable (V ! contentIndex item ! partIndex item)"
    by (auto simp: valid_items_def list_all_iff)
  show "contentIndex item < length (V[ci := (V ! ci)[pi := p']]) \<and>
        partIndex item < length (V[ci := (V ! ci)[pi := p']] ! contentIndex item) \<and>
        maskable (V[ci := (V ! ci)[pi := p']] ! contentIndex item ! partIndex item)"
    using a ci pi m by (auto simp: nth_list_update)
qed

lemma run_item_view:
  "fst (run_item e dir k item (V, saved, effs))
     = V[contentIndex item := (V ! contentIndex item)
           [partIndex item := masked_at e dir k item (V ! contentIndex item ! partIndex item)]]"
  by (simp add: run_item_def Let_def)

lemma mask_loop_refines:
  "wf_history (heap ls) nh \<Longrightarrow> valid_items (history_view (heap ls) nh) items \<Longrightarrow>
   \<forall>j<length items. \<not> io_fails e (Suc (k + j)) \<Longrightarrow>
   \<exists>ls'. mask_loop e dir nh k items ls = (None, ls') \<and> wf_history (heap ls') nh \<and>
         abs_state nh ls' = run_items e dir k items (abs_state nh ls)"
proof (induction items arbitrary: k ls)
  case Nil
  then show ?case by simp
next
  case (Cons item items)
  let ?V = "history_view (heap ls) nh"
  from Cons.prems(2) have a: "contentIndex item < length ?V"
    "partIndex item < length (?V ! contentIndex item)"
    "maskable (?V ! contentIndex item ! partIndex item)"
    and rest: "valid_items ?V items"
    by (simp_all add: valid_items_def)
  from Cons.prems(3) have io: "\<not> io_fails e (Suc k)" by force
  from mask_item_refines[OF Cons.prems(1) a io] obtain ls1 where
    step: "mask_item e dir nh k item ls = (None, ls1)" and w1: "wf_history (heap ls1) nh"
    and abs: "abs_state nh ls1 = run_item e dir k item (abs_state nh ls)"
    by blast
  have "history_view (heap ls1) nh = fst (run_item e dir k item (abs_state nh ls))"
    using arg_cong[OF abs, of fst] by (simp add: abs_state_def)
  then have v1: "history_view (heap ls1) nh = ?V[contentIndex item := (?V ! contentIndex item)
           [partIndex item := masked_at e dir k item (?V ! contentIndex item ! partIndex item)]]"
    by (simp add: abs_state_def run_item_view)
  have valid1: "valid_items (history_view (heap ls1) nh) items"
    unfolding v1 using rest a by (intro valid_items_update masked_at_maskable)
  have io1: "\<forall>j<length items. \<not> io_fails e (Suc (Suc k + j))"
    using Cons.prems(3) by force
  from Cons.IH[OF w1 valid1 io1] obtain ls' where
    "mask_loop e dir nh (Suc k) items ls1 = (None, ls')" "wf_history (heap ls') nh"
    "abs_state nh ls' = run_items e dir (Suc k) items (abs_state nh ls1)"
    by blast
  with step abs show ?case by simp
qed

lemma mask_loop_io_fails:
  "wf_history (heap ls) nh \<Longrightarrow> valid_items (history_view (heap ls) nh) items \<Longrightarrow>
   j < length items \<Longrightarrow> io_fails e (Suc (k + j)) \<Longrightarrow>
   \<exists>ls'. mask_loop e dir nh k items ls = (Some IOError, ls')"
proof (induction items arbitrary: k ls j)
  case Nil
  then show ?case by simp
next
  case (Cons item items)
  let ?V = "history_view (heap ls) nh"
  from Cons.prems(2) have a: "contentIndex item < length ?V"
    "partIndex item < length (?V ! contentIndex item)"
    "maskable (?V ! contentIndex item ! partIndex item)"
    and rest: "valid_items ?V items"
    by (simp_all add: valid_items_def)
  show ?case
  proof (cases "io_fails e (Suc k)")
    case True
    from mask_item_io_fails[OF Cons.prems(1) a True] show ?thesis by simp
  next
    case False
    from mask_item_refines[OF Cons.prems(1) a False] obtain ls1 where
      step: "mask_item e dir nh k item ls = (None, ls1)" and w1: "wf_history (heap ls1) nh"
      and abs: "abs_state nh ls1 = run_item e dir k item (abs_state nh ls)"
      by blast
    have "history_view (heap ls1) nh = fst (run_item e dir k item (abs_state nh ls))"
      using arg_cong[OF abs, of fst] by (simp add: abs_state_def)
    then have v1: "history_view (heap ls1) nh = ?V[contentIndex item := (?V ! contentIndex item)
           [partIndex item := masked_at e dir k item (?V ! contentIndex item ! partIndex item)]]"
      by (simp add: abs_state_def run_item_view)
    have valid1: "valid_items (history_view (heap ls1) nh) items"
      unfolding v1 using rest a by (intro valid_items_update masked_at_maskable)
    from False Cons.prems(4) have "j \<noteq> 0" by (cases j) auto
    then obtain j' where j: "j = Suc j'" by (cases j) auto
    with Cons.prems(3,4) have "j' < length items" "io_fails e (Suc (Suc k + j'))" by simp_all
    from Cons.IH[OF w1 valid1 this] obtain ls' where
      "mask_loop e dir nh (Suc k) items ls1 = (Some IOError, ls')" by blast
    with step show ?thesis by simp
  qed
qed

lemma working_copy_view:
  assumes "wf_history s history"
  shows "wf_history (working_copy s history) (length (h_history s))"
    and "history_view (working_copy s history) (length (h_history s)) = history_view s history"
proof -
  show "wf_history (working_copy s history) (length (h_history s))"
    using assms by (auto simp: wf_history_def working_copy_def list_all_iff split: option.splits)
  have "turn_view (working_copy s history) = turn_view s"
    by (rule ext) (simp add: turn_view_def parts_of_def working_copy_def cong: option.case_cong)
  then show "history_view (working_copy s history) (length (h_history s)) = history_view s history"
    by (simp add: history_view_def working_copy_def)
qed

lemma qualifying_maskable: "qualifying p \<Longrightarrow> maskable p"
  by (auto simp: qualifying_def maskable_def getObservationContent_def payload_ok_def
      split: option.splits jsval.splits if_splits)

lemma prunable_valid:
  "valid_items (history_view s history) (prunableParts (scan_of e s history))"
  unfolding valid_items_def list_all_iff
proof
  fix item assume "item \<in> set (prunableParts (scan_of e s history))"
  then have "item \<in> set (observations e s (h_history s ! history))"
    using prunable_subset_observations unfolding scan_of_def by blast
  from observation_position[OF this]
  show "contentIndex item < length (history_view s history) \<and>
        partIndex item < length (history_view s history ! contentIndex item) \<and>
        maskable (history_view s history ! contentIndex item ! partIndex item)"
    by (simp add: history_view_def turn_view_def qualifying_maskable)
qed

lemma scan_of_account:
  "scan_of e s history =
     foldl account init_scan (map (\<lambda>x. (snd (snd x), entry_of e x))
        (filter (\<lambda>(i, j, p). qualifying p) (scan_order s (h_history s ! history))))"
  by (simp add: scan_of_def scan_history_account)

lemma scan_trace_estimates: "list_all is_estimate (trace (scan_of e s history))"
proof -
  define q where "q = map (\<lambda>x. (snd (snd x), entry_of e x))
        (filter (\<lambda>(i, j, p). qualifying p) (scan_order s (h_history s ! history)))"
  have i: "\<not> protectionBoundaryReached init_scan" "trace init_scan = []"
    by (simp_all add: init_scan_def)
  from foldl_account_before[OF i(1), of q] obtain k where
    "trace (foldl account init_scan q) = trace init_scan @ map (\<lambda>x. Estimate [fst x]) q"
    by blast
  then have "trace (scan_of e s history) = map (\<lambda>x. Estimate [fst x]) q"
    by (simp add: scan_of_account q_def i)
  then show ?thesis
    by (simp add: list_all_iff)
qed

lemma scan_of_empty: "h_history s ! history = [] \<Longrightarrow> scan_of e s history = init_scan"
  by (simp add: scan_of_def)

lemma sum_list_take_le: "sum_list (map f (take n xs)) \<le> (sum_list (map f xs) :: nat)"
proof -
  have "sum_list (map f (take n xs @ drop n xs))
          = sum_list (map f (take n xs)) + sum_list (map f (drop n xs))"
    by (simp only: map_append sum_list_append)
  then show ?thesis by simp
qed

lemma scan_within_protection:
  assumes "sum_list (map tokens (observations e s (h_history s ! history))) \<le> 50000"
  shows "prunableParts (scan_of e s history) = [] \<and> totalPrunableTokens (scan_of e s history) = 0"
proof -
  define q where "q = map (\<lambda>x. (snd (snd x), entry_of e x))
        (filter (\<lambda>(i, j, p). qualifying p) (scan_order s (h_history s ! history)))"
  have obs: "observations e s (h_history s ! history) = map snd q"
    by (simp add: observations_def q_def comp_def)
  have i: "\<not> protectionBoundaryReached init_scan" "prunableParts init_scan = []"
    "totalPrunableTokens init_scan = 0" "cumulativeToolTokens init_scan = 0"
    by (simp_all add: init_scan_def)
  from foldl_account_before[OF i(1), of q] obtain k where k: "k \<le> length q"
    and pp: "prunableParts (foldl account init_scan q) = prunableParts init_scan @ map snd (drop k q)"
    and tt: "totalPrunableTokens (foldl account init_scan q)
               = totalPrunableTokens init_scan + sum_list (map (\<lambda>y. tokens (snd y)) (drop k q))"
    and cross: "k < length q \<longrightarrow> TOOL_PROTECTION_THRESHOLD
                  < cumulativeToolTokens init_scan + sum_list (map (\<lambda>y. tokens (snd y)) (take (Suc k) q))"
    by blast
  have "sum_list (map (\<lambda>y. tokens (snd y)) (take (Suc k) q)) \<le> sum_list (map (\<lambda>y. tokens (snd y)) q)"
    by (rule sum_list_take_le)
  also have "\<dots> \<le> 50000" using assms by (simp add: obs comp_def)
  finally have "\<not> k < length q"
    using cross by (simp add: i TOOL_PROTECTION_THRESHOLD_def)
  with k have "drop k q = []" by simp
  with pp tt show ?thesis
    by (simp add: scan_of_account q_def i)
qed

subsection \<open>The hysteresis threshold\<close>

text \<open>
  Claim C2. When the prunable total of the scan is below 30,000, \<open>mask\<close> returns the address
  it was given with \<open>maskedCount\<close> 0 and \<open>tokensSaved\<close> 0, the store is unchanged, and the only
  effects are the estimator calls of the scan: no directory, no file, no telemetry event.
\<close>

theorem below_hysteresis_noop:
  assumes "totalPrunableTokens (scan_of e s history) < 30000"
  shows "\<exists>tr. mask e s history
                = (Inr \<lparr>newHistory = history, maskedCount = 0, tokensSaved = 0\<rparr>, s, tr)
              \<and> list_all is_estimate tr"
proof (cases "h_history s ! history = []")
  case True
  then show ?thesis by (simp add: mask_empty)
next
  case False
  with assms show ?thesis
    by (simp add: mask_below HYSTERESIS_THRESHOLD_def scan_trace_estimates)
qed

text \<open>
  Claim C8. When the tokens of all observations sum to at most 50,000, \<open>mask\<close> does not
  trigger: it returns the address it was given with \<open>maskedCount\<close> 0 and \<open>tokensSaved\<close> 0 and
  leaves the store unchanged. On the empty history it returns at once, with no effect at all,
  hence without a call of the estimator.
\<close>

theorem within_protection_noop:
  "(sum_list (map tokens (observations e s (h_history s ! history))) \<le> 50000 \<longrightarrow>
      (\<exists>tr. mask e s history
               = (Inr \<lparr>newHistory = history, maskedCount = 0, tokensSaved = 0\<rparr>, s, tr)
             \<and> list_all is_estimate tr)) \<and>
   (h_history s ! history = [] \<longrightarrow>
      mask e s history = (Inr \<lparr>newHistory = history, maskedCount = 0, tokensSaved = 0\<rparr>, s, []))"
proof (intro conjI impI)
  assume a: "sum_list (map tokens (observations e s (h_history s ! history))) \<le> 50000"
  show "\<exists>tr. mask e s history
               = (Inr \<lparr>newHistory = history, maskedCount = 0, tokensSaved = 0\<rparr>, s, tr)
             \<and> list_all is_estimate tr"
  proof (cases "h_history s ! history = []")
    case True
    then show ?thesis by (simp add: mask_empty)
  next
    case False
    with scan_within_protection[OF a] show ?thesis
      by (simp add: mask_below HYSTERESIS_THRESHOLD_def scan_trace_estimates)
  qed
next
  assume "h_history s ! history = []"
  then show "mask e s history
      = (Inr \<lparr>newHistory = history, maskedCount = 0, tokensSaved = 0\<rparr>, s, [])"
    by (rule mask_empty)
qed

subsection \<open>Failure of the file system\<close>

text \<open>
  Claim C7. Whatever \<open>mask\<close> returns, every object of the caller's store (the history array,
  the turns, the \<open>Part[]\<close> arrays, the parts) is unchanged afterwards: the writes go to objects
  allocated by the call. When masking triggers on a well-formed history and \<open>mkdir\<close> or one of
  the \<open>writeFile\<close> calls rejects, \<open>mask\<close> rejects with that error and returns no history.
\<close>

theorem io_failure_atomic:
  assumes "mask e s history = (r, s', tr)"
  shows "preserves s s' \<and>
         (wf_history s history \<and> 30000 \<le> totalPrunableTokens (scan_of e s history) \<and>
          (io_fails e 0 \<or> (\<exists>k<length (prunableParts (scan_of e s history)). io_fails e (Suc k)))
            \<longrightarrow> r = Inl IOError)"
proof (intro conjI impI)
  show "preserves s s'" using assms by (rule mask_preserves)
next
  assume a: "wf_history s history \<and> 30000 \<le> totalPrunableTokens (scan_of e s history) \<and>
          (io_fails e 0 \<or> (\<exists>k<length (prunableParts (scan_of e s history)). io_fails e (Suc k)))"
  then have wf: "wf_history s history"
    and tot: "\<not> totalPrunableTokens (scan_of e s history) < HYSTERESIS_THRESHOLD"
    by (simp_all add: HYSTERESIS_THRESHOLD_def)
  have ne: "h_history s ! history \<noteq> []"
  proof
    assume "h_history s ! history = []"
    then have "totalPrunableTokens (scan_of e s history) = 0"
      by (simp add: scan_of_empty init_scan_def)
    with a show False by simp
  qed
  show "r = Inl IOError"
  proof (cases "io_fails e 0")
    case True
    with assms ne tot show ?thesis by (simp add: mask_mkdir_fails)
  next
    case False
    with a obtain k where k: "k < length (prunableParts (scan_of e s history))"
      and f: "io_fails e (Suc (0 + k))" by auto
    have w: "wf_history (heap (loop_start e s history)) (length (h_history s))"
      using working_copy_view(1)[OF wf] by (simp add: loop_start_def)
    have v: "valid_items (history_view (heap (loop_start e s history)) (length (h_history s)))
               (prunableParts (scan_of e s history))"
      using working_copy_view(2)[OF wf] prunable_valid[of s history e] by (simp add: loop_start_def)
    from mask_loop_io_fails[OF w v k f] obtain ls' where
      "mask_loop e (observationDir_of e) (length (h_history s)) 0
         (prunableParts (scan_of e s history)) (loop_start e s history) = (Some IOError, ls')"
      by blast
    from mask_triggers[OF ne tot False this] assms show ?thesis by simp
  qed
qed

lemma est_tool_part: "chars_estimate [tool_part n out] = length out"
  by (simp add: chars_estimate_def content_tool_part)

lemmas scan_eval = scan_of_def scan_part_cases qualifying_tool_part account_def entry_of_def
  init_scan_def parts_of_def est_tool_part content_tool_part TOOL_PROTECTION_THRESHOLD_def Let_def

lemma scan_two_turns:
  "estimateTokenCountSync e = chars_estimate \<Longrightarrow>
   scan_of e two_turns 0 =
     \<lparr>cumulativeToolTokens = 70000, protectionBoundaryReached = True, totalPrunableTokens = 20000,
      prunableParts = [\<lparr>contentIndex = 0, partIndex = 0, tokens = 20000,
                        content = replicate 20000 (CHR ''A'')\<rparr>],
      trace = [Estimate [tool_part ''tool2'' (replicate 50000 (CHR ''B''))],
               Estimate [tool_part ''tool1'' (replicate 20000 (CHR ''A''))]]\<rparr>"
  by (simp add: scan_eval two_turns_def)

lemma scan_three_turns:
  "estimateTokenCountSync e = chars_estimate \<Longrightarrow>
   scan_of e three_turns 0 =
     \<lparr>cumulativeToolTokens = 80000, protectionBoundaryReached = True, totalPrunableTokens = 120000,
      prunableParts = [\<lparr>contentIndex = 1, partIndex = 0, tokens = 60000,
                        content = replicate 60000 (CHR ''B'')\<rparr>,
                       \<lparr>contentIndex = 0, partIndex = 0, tokens = 60000,
                        content = replicate 60000 (CHR ''A'')\<rparr>],
      trace = [Estimate [tool_part ''tool3'' (replicate 20000 (CHR ''C''))],
               Estimate [tool_part ''tool2'' (replicate 60000 (CHR ''B''))],
               Estimate [tool_part ''tool1'' (replicate 60000 (CHR ''A''))]]\<rparr>"
  by (simp add: scan_eval three_turns_def)

lemma est_test_env: "estimateTokenCountSync test_env = chars_estimate"
  "estimateTokenCountSync second_write_fails = chars_estimate"
  by (simp_all add: test_env_def second_write_fails_def)

theorem below_hysteresis_noop_witness:
  "totalPrunableTokens (scan_of test_env two_turns 0) = 20000 \<and>
   (\<exists>tr. mask test_env two_turns 0
            = (Inr \<lparr>newHistory = 0, maskedCount = 0, tokensSaved = 0\<rparr>, two_turns, tr)
          \<and> list_all is_estimate tr)"
proof -
  have t: "totalPrunableTokens (scan_of test_env two_turns 0) = 20000"
    by (simp add: scan_two_turns est_test_env)
  then have "totalPrunableTokens (scan_of test_env two_turns 0) < 30000" by simp
  from below_hysteresis_noop[OF this] t show ?thesis by blast
qed

lemma obs_one_turn: "observations test_env one_turn (h_history one_turn ! 0) =
   [\<lparr>contentIndex = 0, partIndex = 0, tokens = 12, content = ''small output''\<rparr>]"
  by (simp add: observations_def scan_order_def one_turn_def parts_of_def qualifying_def
      isAlreadyMasked_def entry_of_def test_env_def est_tool_part content_tool_part)

theorem within_protection_noop_witness:
  "(\<exists>tr. mask test_env one_turn 0
            = (Inr \<lparr>newHistory = 0, maskedCount = 0, tokensSaved = 0\<rparr>, one_turn, tr)
          \<and> list_all is_estimate tr) \<and>
   mask test_env empty_history 0
     = (Inr \<lparr>newHistory = 0, maskedCount = 0, tokensSaved = 0\<rparr>, empty_history, [])"
proof -
  have a: "sum_list (map tokens (observations test_env one_turn (h_history one_turn ! 0))) \<le> 50000"
    by (simp add: obs_one_turn)
  have b: "h_history empty_history ! 0 = []"
    by (simp add: empty_history_def)
  from within_protection_noop[of test_env one_turn 0] a
    within_protection_noop[of test_env empty_history 0] b
  show ?thesis by blast
qed

theorem io_failure_atomic_witness:
  "fst (mask second_write_fails three_turns 0) = Inl IOError \<and>
   preserves three_turns (fst (snd (mask second_write_fails three_turns 0)))"
proof -
  have m: "mask second_write_fails three_turns 0
      = (fst (mask second_write_fails three_turns 0),
         fst (snd (mask second_write_fails three_turns 0)),
         snd (snd (mask second_write_fails three_turns 0)))"
    by simp
  have wf: "wf_history three_turns 0"
    by (simp add: wf_history_def three_turns_def)
  have tot: "30000 \<le> totalPrunableTokens (scan_of second_write_fails three_turns 0)"
    by (simp add: scan_three_turns est_test_env)
  have "1 < length (prunableParts (scan_of second_write_fails three_turns 0))"
    and "io_fails second_write_fails (Suc 1)"
    by (simp_all add: scan_three_turns est_test_env second_write_fails_def)
  then have "\<exists>k<length (prunableParts (scan_of second_write_fails three_turns 0)).
      io_fails second_write_fails (Suc k)"
    by blast
  with io_failure_atomic[OF m] wf tot show ?thesis by blast
qed

lemma distinct_positions_aux:
  "distinct (map (\<lambda>x. (fst x, fst (snd x)))
      (concat (map (\<lambda>i. map (\<lambda>j. (i, j, g i j)) (rev [0..<m i])) (rev [0..<n])))) \<and>
   (\<forall>x\<in>set (concat (map (\<lambda>i. map (\<lambda>j. (i, j, g i j)) (rev [0..<m i])) (rev [0..<n]))). fst x < n)"
proof (induction n)
  case 0
  then show ?case by simp
next
  case (Suc n)
  have d: "distinct (map (\<lambda>x. (fst x, fst (snd x))) (map (\<lambda>j. (n, j, g n j)) (rev [0..<m n])))"
    by (simp add: distinct_map comp_def inj_on_def)
  from Suc show ?case
    using d by (auto simp: comp_def less_Suc_eq)
qed

lemma distinct_scan_positions:
  "distinct (map (\<lambda>x. (fst x, fst (snd x))) (scan_order st hist))"
  unfolding scan_order_def
  using distinct_positions_aux[of "\<lambda>i j. h_part st ! (parts_of st (hist ! i) ! j)"
      "\<lambda>i. length (parts_of st (hist ! i))" "length hist"]
  by simp

lemma position_entry_of: "position (entry_of e x) = (fst x, fst (snd x))"
  by (cases x) (simp add: position_def entry_of_def)

lemma distinct_observation_positions: "distinct (map position (observations e st hist))"
proof -
  have "map position (observations e st hist)
      = map (\<lambda>x. (fst x, fst (snd x))) (filter (\<lambda>(i, j, p). qualifying p) (scan_order st hist))"
    by (simp add: observations_def position_entry_of comp_def)
  then show ?thesis
    using distinct_scan_positions[of st hist] by (simp add: distinct_map_filter)
qed

lemma prunable_drop_observations:
  "\<exists>k. prunableParts (scan_of e s history) = drop k (observations e s (h_history s ! history))"
proof -
  define q where "q = map (\<lambda>x. (snd (snd x), entry_of e x))
        (filter (\<lambda>(i, j, p). qualifying p) (scan_order s (h_history s ! history)))"
  have obs: "observations e s (h_history s ! history) = map snd q"
    by (simp add: observations_def q_def comp_def)
  have i: "\<not> protectionBoundaryReached init_scan" "prunableParts init_scan = []"
    by (simp_all add: init_scan_def)
  from foldl_account_before[OF i(1), of q] obtain k where
    "prunableParts (foldl account init_scan q) = prunableParts init_scan @ map snd (drop k q)"
    by blast
  then have "prunableParts (scan_of e s history) = drop k (map snd q)"
    by (simp add: scan_of_account q_def i drop_map)
  then show ?thesis unfolding obs by blast
qed

lemma distinct_prunable_positions: "distinct (map position (prunableParts (scan_of e s history)))"
proof -
  from prunable_drop_observations obtain k where
    "prunableParts (scan_of e s history) = drop k (observations e s (h_history s ! history))"
    by blast
  then show ?thesis
    using distinct_observation_positions[of e s "h_history s ! history"]
    by (simp add: drop_map[symmetric] distinct_drop)
qed

lemma written_files_append: "written_files (a @ b) = written_files a @ written_files b"
  by (simp add: written_files_def)

lemma update2_other:
  "(i, j) \<noteq> (ci, pi) \<Longrightarrow> V[ci := (V ! ci)[pi := x]] ! i ! j = V ! i ! j"
  by (cases "ci < length V") (auto simp: nth_list_update list_update_beyond)

lemma update2_same:
  "ci < length V \<Longrightarrow> pi < length (V ! ci) \<Longrightarrow> V[ci := (V ! ci)[pi := x]] ! ci ! pi = x"
  by simp

lemma update2_shape:
  "length (V[ci := (V ! ci)[pi := x]]) = length V \<and>
   length (V[ci := (V ! ci)[pi := x]] ! i) = length (V ! i)"
  by (cases "ci < length V") (auto simp: nth_list_update list_update_beyond)

lemma run_item_components:
  "run_item e dir k item (V, sv, effs) =
     (V[contentIndex item := (V ! contentIndex item)
          [partIndex item := masked_at e dir k item (V ! contentIndex item ! partIndex item)]],
      sv + (int (tokens item)
            - int (estimateTokenCountSync e [masked_at e dir k item (V ! contentIndex item ! partIndex item)])),
      effs @ [WriteFile (path_for e dir k (V ! contentIndex item ! partIndex item)) (content item),
              Estimate [masked_at e dir k item (V ! contentIndex item ! partIndex item)]])"
  by (simp add: run_item_def Let_def)

lemma run_items_other:
  "(i, j) \<notin> set (map position items) \<Longrightarrow>
   fst (run_items e dir k items (V, sv, effs)) ! i ! j = V ! i ! j"
proof (induction items arbitrary: k V sv effs)
  case Nil
  then show ?case by simp
next
  case (Cons item items)
  from Cons.prems have ne: "(i, j) \<noteq> (contentIndex item, partIndex item)"
    and rest: "(i, j) \<notin> set (map position items)"
    by (auto simp: position_def)
  show ?case
    using Cons.IH[OF rest] update2_other[OF ne]
    by (simp add: run_item_components)
qed

lemma run_items_shape:
  "length (fst (run_items e dir k items (V, sv, effs))) = length V \<and>
   length (fst (run_items e dir k items (V, sv, effs)) ! i) = length (V ! i)"
proof (induction items arbitrary: k V sv effs)
  case Nil
  then show ?case by simp
next
  case (Cons item items)
  show ?case
    using Cons.IH update2_shape
    by (simp add: run_item_components)
qed

lemma run_items_written:
  "map snd (written_files (snd (snd (run_items e dir k items (V, sv, effs)))))
     = map snd (written_files effs) @ map content items"
proof (induction items arbitrary: k V sv effs)
  case Nil
  then show ?case by simp
next
  case (Cons item items)
  show ?case
    using Cons.IH
    by (simp add: run_item_components written_files_append) (simp add: written_files_def)
qed

lemma run_items_at:
  "valid_items V items \<Longrightarrow> distinct (map position items) \<Longrightarrow> n < length items \<Longrightarrow>
   fst (run_items e dir k items (V, sv, effs)) ! contentIndex (items ! n) ! partIndex (items ! n)
     = masked_at e dir (k + n) (items ! n) (V ! contentIndex (items ! n) ! partIndex (items ! n))"
proof (induction items arbitrary: k V sv effs n)
  case Nil
  then show ?case by simp
next
  case (Cons item items)
  let ?m = "masked_at e dir k item (V ! contentIndex item ! partIndex item)"
  let ?V1 = "V[contentIndex item := (V ! contentIndex item)[partIndex item := ?m]]"
  from Cons.prems(1) have a: "contentIndex item < length V"
    "partIndex item < length (V ! contentIndex item)"
    "maskable (V ! contentIndex item ! partIndex item)"
    and rest: "valid_items V items"
    by (simp_all add: valid_items_def)
  from Cons.prems(2) have "position item \<notin> set (map position items)"
    and d: "distinct (map position items)"
    by simp_all
  then have fresh: "(contentIndex item, partIndex item) \<notin> set (map position items)"
    by (simp add: position_def)
  have v1: "valid_items ?V1 items"
    using rest a by (intro valid_items_update masked_at_maskable)
  show ?case
  proof (cases n)
    case 0
    then show ?thesis
      using run_items_other[OF fresh] update2_same[OF a(1,2)]
      by (simp add: run_item_components)
  next
    case (Suc n')
    with Cons.prems(3) have n': "n' < length items" by simp
    then have "position (items ! n') \<in> set (map position items)" by simp
    with fresh have "(contentIndex (items ! n'), partIndex (items ! n'))
        \<noteq> (contentIndex item, partIndex item)"
      by (auto simp: position_def)
    then have o: "?V1 ! contentIndex (items ! n') ! partIndex (items ! n')
        = V ! contentIndex (items ! n') ! partIndex (items ! n')"
      by (rule update2_other)
    have "fst (run_items e dir (Suc k) items
            (?V1, sv + (int (tokens item) - int (estimateTokenCountSync e [?m])),
             effs @ [WriteFile (path_for e dir k (V ! contentIndex item ! partIndex item)) (content item),
                     Estimate [?m]]))
          ! contentIndex (items ! n') ! partIndex (items ! n')
        = masked_at e dir (Suc k + n') (items ! n')
            (?V1 ! contentIndex (items ! n') ! partIndex (items ! n'))"
      by (rule Cons.IH[OF v1 d n'])
    then show ?thesis
      unfolding o using Suc by (simp add: run_item_components)
  qed
qed

lemma run_items_saved:
  "valid_items V items \<Longrightarrow> distinct (map position items) \<Longrightarrow>
   fst (snd (run_items e dir k items (V, sv, effs)))
     = sv + sum_list (map (\<lambda>item. int (tokens item)
              - int (estimateTokenCountSync e
                  [fst (run_items e dir k items (V, sv, effs)) ! contentIndex item ! partIndex item]))
            items)"
proof (induction items arbitrary: k V sv effs)
  case Nil
  then show ?case by simp
next
  case (Cons item items)
  let ?m = "masked_at e dir k item (V ! contentIndex item ! partIndex item)"
  let ?V1 = "V[contentIndex item := (V ! contentIndex item)[partIndex item := ?m]]"
  from Cons.prems(1) have a: "contentIndex item < length V"
    "partIndex item < length (V ! contentIndex item)"
    "maskable (V ! contentIndex item ! partIndex item)"
    and rest: "valid_items V items"
    by (simp_all add: valid_items_def)
  from Cons.prems(2) have "position item \<notin> set (map position items)"
    and d: "distinct (map position items)"
    by simp_all
  then have fresh: "(contentIndex item, partIndex item) \<notin> set (map position items)"
    by (simp add: position_def)
  have v1: "valid_items ?V1 items"
    using rest a by (intro valid_items_update masked_at_maskable)
  show ?case
    using Cons.IH[OF v1 d] run_items_other[OF fresh] update2_same[OF a(1,2)]
    by (simp add: run_item_components)
qed

lemma mask_success:
  assumes wf: "wf_history s history"
    and trig: "30000 \<le> totalPrunableTokens (scan_of e s history)"
    and io: "\<forall>k\<le>length (prunableParts (scan_of e s history)). \<not> io_fails e k"
  shows "\<exists>ls'. mask e s history =
           (Inr \<lparr>newHistory = length (h_history s),
                 maskedCount = length (prunableParts (scan_of e s history)),
                 tokensSaved = actualTokensSaved ls'\<rparr>,
            heap ls', effects ls' @ final_effects (scan_of e s history) ls') \<and>
         wf_history (heap ls') (length (h_history s)) \<and>
         abs_state (length (h_history s)) ls'
           = run_items e (observationDir_of e) 0 (prunableParts (scan_of e s history))
               (history_view s history, 0,
                trace (scan_of e s history) @ [trigger_log (scan_of e s history), Mkdir (observationDir_of e)])"
proof -
  have tot: "\<not> totalPrunableTokens (scan_of e s history) < HYSTERESIS_THRESHOLD"
    using trig by (simp add: HYSTERESIS_THRESHOLD_def)
  have ne: "h_history s ! history \<noteq> []"
  proof
    assume "h_history s ! history = []"
    then have "totalPrunableTokens (scan_of e s history) = 0"
      by (simp add: scan_of_empty init_scan_def)
    with trig show False by simp
  qed
  from io have io0: "\<not> io_fails e 0" by simp
  have ios: "\<forall>j<length (prunableParts (scan_of e s history)). \<not> io_fails e (Suc (0 + j))"
    using io by (simp add: Suc_le_eq)
  have w: "wf_history (heap (loop_start e s history)) (length (h_history s))"
    using working_copy_view(1)[OF wf] by (simp add: loop_start_def)
  have v: "valid_items (history_view (heap (loop_start e s history)) (length (h_history s)))
             (prunableParts (scan_of e s history))"
    using working_copy_view(2)[OF wf] prunable_valid[of s history e] by (simp add: loop_start_def)
  from mask_loop_refines[OF w v ios] obtain ls' where
    loop: "mask_loop e (observationDir_of e) (length (h_history s)) 0
             (prunableParts (scan_of e s history)) (loop_start e s history) = (None, ls')"
    and w': "wf_history (heap ls') (length (h_history s))"
    and abs: "abs_state (length (h_history s)) ls'
       = run_items e (observationDir_of e) 0 (prunableParts (scan_of e s history))
           (abs_state (length (h_history s)) (loop_start e s history))"
    by blast
  have start: "abs_state (length (h_history s)) (loop_start e s history)
      = (history_view s history, 0,
         trace (scan_of e s history) @ [trigger_log (scan_of e s history), Mkdir (observationDir_of e)])"
    using working_copy_view(2)[OF wf] by (simp add: abs_state_def loop_start_def)
  from mask_triggers[OF ne tot io0 loop] w' abs start show ?thesis
    by auto
qed

lemma formatMaskedSnippet_nonempty: "c \<noteq> [] \<Longrightarrow> formatMaskedSnippet e c fp tn tok \<noteq> []"
  by (simp add: formatMaskedSnippet_def Let_def)

lemma formatMaskedSnippet_small:
  "length c \<le> 50000 \<Longrightarrow> formatMaskedSnippet e c fp tn tok = c"
  by (simp add: formatMaskedSnippet_def Let_def SMART_TRUNCATION_TOKENS_def)

lemma formatMaskedSnippet_marked:
  "50000 < length c \<Longrightarrow> isAlreadyMasked (formatMaskedSnippet e c fp tn tok)"
proof -
  assume "50000 < length c"
  then have "\<exists>rest. formatMaskedSnippet e c fp tn tok = [] @ ''[Observation Masked]'' @ rest"
    by (simp add: formatMaskedSnippet_def Let_def SMART_TRUNCATION_TOKENS_def)
  then obtain rest where "formatMaskedSnippet e c fp tn tok = [] @ ''[Observation Masked]'' @ rest"
    by blast
  then show ?thesis
    unfolding isAlreadyMasked_def js_includes_sublist by (metis sublist_appendI)
qed

lemma string_at_update_same: "string_at (AList.update k (JStr v) kvs) k = Some v"
  by (simp add: string_at_def update_conv')

lemma string_at_update_other:
  "k' \<noteq> k \<Longrightarrow> string_at (AList.update k v kvs) k' = string_at kvs k'"
  by (simp add: string_at_def update_conv')

lemma string_at_absent: "\<not> has_key k kvs \<Longrightarrow> string_at kvs k = None"
  by (simp add: string_at_def has_key_def)

lemma newResponse_content:
  assumes "newResponse_of r snip = Inr nr" and "snip \<noteq> []" and "functionResponse p = Some fr"
  shows "getObservationContent (masked_part p fr nr) = Some snip"
proof -
  have key: "getObservationContent (masked_part p fr (JObj (AList.update k (JStr snip) kvs))) = Some snip"
    if "k = ''output'' \<or> (\<not> has_key ''output'' kvs \<and>
          (k = ''result'' \<or> (\<not> has_key ''result'' kvs \<and>
             (k = ''stdout'' \<or> (\<not> has_key ''stdout'' kvs \<and> k = ''content'')))))" for k kvs
    using that
    by (auto simp: getObservationContent_def masked_part_def string_at_update_same
        string_at_update_other string_at_absent)
  show ?thesis
  proof (cases "if truthy r then r else JObj []")
    case (JStr x)
    with assms show ?thesis
      by (auto simp: newResponse_of_def Let_def getObservationContent_def masked_part_def
          split: if_splits)
  next
    case (JObj kvs)
    with assms(1) have "nr = JObj
               (if has_key ''output'' kvs then AList.update ''output'' (JStr snip) kvs
                else if has_key ''result'' kvs then AList.update ''result'' (JStr snip) kvs
                else if has_key ''stdout'' kvs then AList.update ''stdout'' (JStr snip) kvs
                else if has_key ''content'' kvs then AList.update ''content'' (JStr snip) kvs
                else AList.update ''output'' (JStr snip) kvs)"
      by (simp add: newResponse_of_def Let_def)
    then show ?thesis
      by (auto simp: key)
  qed (use assms(1) in \<open>simp_all add: newResponse_of_def Let_def\<close>)
qed

lemma view_nth:
  "ci < length (h_history s ! a) \<Longrightarrow> pi < length (parts_of s (h_history s ! a ! ci)) \<Longrightarrow>
   history_view s a ! ci ! pi = h_part s ! (parts_of s (h_history s ! a ! ci) ! pi)"
  by (simp add: history_view_def turn_view_def)

lemma observation_facts:
  assumes "item \<in> set (observations e s (h_history s ! a))"
  shows "contentIndex item < length (history_view s a)"
    and "partIndex item < length (history_view s a ! contentIndex item)"
    and "qualifying (history_view s a ! contentIndex item ! partIndex item)"
    and "getObservationContent (history_view s a ! contentIndex item ! partIndex item)
           = Some (content item)"
    and "content item \<noteq> []" and "\<not> isAlreadyMasked (content item)"
    and "tokens item = estimateTokenCountSync e [history_view s a ! contentIndex item ! partIndex item]"
proof -
  let ?p = "h_part s ! (parts_of s (h_history s ! a ! contentIndex item) ! partIndex item)"
  from observation_position[OF assms] have c: "contentIndex item < length (h_history s ! a)"
    and p: "partIndex item < length (parts_of s (h_history s ! a ! contentIndex item))"
    and q: "qualifying ?p"
    and i: "item = entry_of e (contentIndex item, partIndex item, ?p)"
    by blast+
  have v: "history_view s a ! contentIndex item ! partIndex item = ?p"
    using c p by (rule view_nth)
  show "contentIndex item < length (history_view s a)"
    using c by (simp add: history_view_def)
  show "partIndex item < length (history_view s a ! contentIndex item)"
    using c p by (simp add: history_view_def turn_view_def)
  show "qualifying (history_view s a ! contentIndex item ! partIndex item)"
    using q v by simp
  from q obtain obs where t: "getObservationContent ?p = Some obs" "obs \<noteq> []" "\<not> isAlreadyMasked obs"
    by (auto simp: qualifying_def split: option.splits)
  have ci: "content item = obs"
    by (subst i) (simp add: entry_of_def t)
  show "getObservationContent (history_view s a ! contentIndex item ! partIndex item)
           = Some (content item)"
    using t ci v by simp
  show "content item \<noteq> []" "\<not> isAlreadyMasked (content item)"
    using t ci by simp_all
  show "tokens item = estimateTokenCountSync e [history_view s a ! contentIndex item ! partIndex item]"
    unfolding v by (subst i) (simp add: entry_of_def)
qed

lemma prunable_facts:
  assumes "item \<in> set (prunableParts (scan_of e s a))"
  shows "contentIndex item < length (history_view s a)"
    and "partIndex item < length (history_view s a ! contentIndex item)"
    and "qualifying (history_view s a ! contentIndex item ! partIndex item)"
    and "getObservationContent (history_view s a ! contentIndex item ! partIndex item)
           = Some (content item)"
    and "content item \<noteq> []" and "\<not> isAlreadyMasked (content item)"
    and "tokens item = estimateTokenCountSync e [history_view s a ! contentIndex item ! partIndex item]"
proof -
  from assms have "item \<in> set (observations e s (h_history s ! a))"
    using prunable_subset_observations unfolding scan_of_def by blast
  from observation_facts[OF this] show
    "contentIndex item < length (history_view s a)"
    "partIndex item < length (history_view s a ! contentIndex item)"
    "qualifying (history_view s a ! contentIndex item ! partIndex item)"
    "getObservationContent (history_view s a ! contentIndex item ! partIndex item)
           = Some (content item)"
    "content item \<noteq> []" "\<not> isAlreadyMasked (content item)"
    "tokens item = estimateTokenCountSync e [history_view s a ! contentIndex item ! partIndex item]"
    by blast+
qed

lemma snippet_for_nonempty: "content item \<noteq> [] \<Longrightarrow> snippet_for e dir k item fr \<noteq> []"
  by (simp add: snippet_for_def formatMaskedSnippet_nonempty)

lemma masked_at_content:
  assumes "maskable p" and "content item \<noteq> []"
  shows "getObservationContent (masked_at e dir k item p) = Some (snippet_at e dir k item p)"
proof -
  from maskableD[OF assms(1)] obtain fr where fr: "functionResponse p = Some fr"
    and ok: "payload_ok (response fr)" by blast
  from newResponse_of_ok[OF ok] obtain nr where
    nr: "newResponse_of (response fr) (snippet_for e dir k item fr) = Inr nr" by blast
  from newResponse_content[OF nr snippet_for_nonempty[OF assms(2)] fr]
  show ?thesis
    by (simp add: masked_at_def snippet_at_def fr nr)
qed

lemma masked_part_same: "functionResponse p = Some fr \<Longrightarrow> masked_part p fr (response fr) = p"
  by (simp add: masked_part_def)

lemma newResponse_same:
  assumes "text_key_first p" and "functionResponse p = Some fr"
    and "getObservationContent p = Some c"
  shows "newResponse_of (response fr) c = Inr (response fr)"
proof (cases "response fr")
  case (JStr x)
  with assms show ?thesis
    by (auto simp: newResponse_of_def Let_def getObservationContent_def text_key_first_def
        split: if_splits)
next
  case (JObj kvs)
  have u: "AList.update k (JStr c) kvs = kvs" if "string_at kvs k = Some c" for k
    using that by (intro update_triv) (auto simp: string_at_def split: option.splits jsval.splits)
  from JObj assms show ?thesis
    by (auto simp: newResponse_of_def Let_def getObservationContent_def text_key_first_def u
        string_at_absent split: if_splits option.splits)
qed (use assms in \<open>simp_all add: text_key_first_def\<close>)

lemma masked_at_small_same:
  assumes "text_key_first p" and "getObservationContent p = Some (content item)"
    and "length (content item) \<le> 50000"
  shows "masked_at e dir k item p = p"
proof -
  from assms(1) obtain fr where fr: "functionResponse p = Some fr"
    by (auto simp: text_key_first_def split: option.splits)
  have "snippet_for e dir k item fr = content item"
    using assms(3) by (simp add: snippet_for_def formatMaskedSnippet_small)
  with newResponse_same[OF assms(1) fr assms(2)] show ?thesis
    by (simp add: masked_at_def fr masked_part_same)
qed

lemma snippet_at_small:
  "length (content item) \<le> 50000 \<Longrightarrow> functionResponse p \<noteq> None \<Longrightarrow>
   snippet_at e dir k item p = content item"
  by (auto simp: snippet_at_def snippet_for_def formatMaskedSnippet_small)

lemma snippet_at_marked:
  "50000 < length (content item) \<Longrightarrow> functionResponse p \<noteq> None \<Longrightarrow>
   isAlreadyMasked (snippet_at e dir k item p)"
  by (auto simp: snippet_at_def snippet_for_def formatMaskedSnippet_marked)

lemma written_files_estimates: "list_all is_estimate tr \<Longrightarrow> written_files tr = []"
proof (induction tr)
  case Nil
  then show ?case by (simp add: written_files_def)
next
  case (Cons x tr)
  then show ?case by (cases x) (simp_all add: written_files_def)
qed

lemma mask_success_view:
  assumes wf: "wf_history s history"
    and trig: "30000 \<le> totalPrunableTokens (scan_of e s history)"
    and io: "\<forall>k\<le>length (prunableParts (scan_of e s history)). \<not> io_fails e k"
  shows "\<exists>r s' tr. mask e s history = (Inr r, s', tr) \<and>
      newHistory r = length (h_history s) \<and>
      maskedCount r = length (prunableParts (scan_of e s history)) \<and>
      wf_history s' (newHistory r) \<and>
      map snd (written_files tr) = map content (prunableParts (scan_of e s history)) \<and>
      tokensSaved r = sum_list (map (\<lambda>item. int (tokens item)
              - int (estimateTokenCountSync e
                  [history_view s' (newHistory r) ! contentIndex item ! partIndex item]))
            (prunableParts (scan_of e s history))) \<and>
      (\<forall>n<length (prunableParts (scan_of e s history)).
         history_view s' (newHistory r) ! contentIndex (prunableParts (scan_of e s history) ! n)
             ! partIndex (prunableParts (scan_of e s history) ! n)
           = masked_at e (observationDir_of e) n (prunableParts (scan_of e s history) ! n)
               (history_view s history ! contentIndex (prunableParts (scan_of e s history) ! n)
                  ! partIndex (prunableParts (scan_of e s history) ! n))) \<and>
      (\<forall>i j. (i, j) \<notin> set (map position (prunableParts (scan_of e s history))) \<longrightarrow>
         history_view s' (newHistory r) ! i ! j = history_view s history ! i ! j) \<and>
      length (history_view s' (newHistory r)) = length (history_view s history) \<and>
      (\<forall>i. length (history_view s' (newHistory r) ! i) = length (history_view s history ! i))"
proof -
  let ?items = "prunableParts (scan_of e s history)"
  let ?V = "history_view s history"
  let ?tr0 = "trace (scan_of e s history) @ [trigger_log (scan_of e s history), Mkdir (observationDir_of e)]"
  let ?run = "run_items e (observationDir_of e) 0 ?items (?V, 0, ?tr0)"
  from mask_success[OF wf trig io] obtain ls' where
    m: "mask e s history =
           (Inr \<lparr>newHistory = length (h_history s), maskedCount = length ?items,
                 tokensSaved = actualTokensSaved ls'\<rparr>,
            heap ls', effects ls' @ final_effects (scan_of e s history) ls')"
    and w: "wf_history (heap ls') (length (h_history s))"
    and abs: "abs_state (length (h_history s)) ls' = ?run"
    by blast
  from arg_cong[OF abs, of fst] have v: "history_view (heap ls') (length (h_history s)) = fst ?run"
    by (simp add: abs_state_def)
  from arg_cong[OF abs, of "\<lambda>x. fst (snd x)"] have sv: "actualTokensSaved ls' = fst (snd ?run)"
    by (simp add: abs_state_def)
  from arg_cong[OF abs, of "\<lambda>x. snd (snd x)"] have ef: "effects ls' = snd (snd ?run)"
    by (simp add: abs_state_def)
  have valid: "valid_items ?V ?items" by (rule prunable_valid)
  have dist: "distinct (map position ?items)" by (rule distinct_prunable_positions)
  have w0: "written_files ?tr0 = []"
    using written_files_estimates[OF scan_trace_estimates[of e s history]]
    by (simp add: written_files_append) (simp add: written_files_def trigger_log_def)
  have wr: "map snd (written_files (effects ls' @ final_effects (scan_of e s history) ls'))
      = map content ?items"
    using run_items_written[of e "observationDir_of e" 0 ?items ?V 0 ?tr0] w0
    by (simp add: ef written_files_append) (simp add: written_files_def final_effects_def)
  have saved: "actualTokensSaved ls' = sum_list (map (\<lambda>item. int (tokens item)
              - int (estimateTokenCountSync e
                  [history_view (heap ls') (length (h_history s)) ! contentIndex item ! partIndex item]))
            ?items)"
    using run_items_saved[OF valid dist, of e "observationDir_of e" 0 0 ?tr0]
    by (simp add: sv v)
  have at: "\<forall>n<length ?items.
         history_view (heap ls') (length (h_history s)) ! contentIndex (?items ! n) ! partIndex (?items ! n)
           = masked_at e (observationDir_of e) n (?items ! n)
               (?V ! contentIndex (?items ! n) ! partIndex (?items ! n))"
    using run_items_at[OF valid dist, of _ e "observationDir_of e" 0 0 ?tr0]
    by (simp add: v)
  have other: "\<forall>i j. (i, j) \<notin> set (map position ?items) \<longrightarrow>
         history_view (heap ls') (length (h_history s)) ! i ! j = ?V ! i ! j"
    using run_items_other[of _ _ ?items e "observationDir_of e" 0 ?V 0 ?tr0]
    by (simp add: v)
  have shape: "length (history_view (heap ls') (length (h_history s))) = length ?V"
    "\<forall>i. length (history_view (heap ls') (length (h_history s)) ! i) = length (?V ! i)"
    using run_items_shape[of e "observationDir_of e" 0 ?items ?V 0 ?tr0]
    by (simp_all add: v)
  show ?thesis
    using m w wr saved at other shape
    by (intro exI[of _ "\<lparr>newHistory = length (h_history s), maskedCount = length ?items,
                 tokensSaved = actualTokensSaved ls'\<rparr>"] exI[of _ "heap ls'"]
          exI[of _ "effects ls' @ final_effects (scan_of e s history) ls'"]) simp
qed

subsection \<open>Offloading every prunable record\<close>

text \<open>
  What holds of the offload loop for every prunable record. When masking triggers on a
  well-formed history and the file system does not fail, \<open>mask\<close> succeeds, \<open>maskedCount\<close> is
  the length of the prunable list, and the texts written to the offload files are exactly the
  original texts of the prunable records, one file per record, in order. \<open>tokensSaved\<close> is the
  sum over the records of the tokens of the record minus the estimate of the part now at its
  position. For a record of at most 50,000 characters the text read at its position in the
  returned history is the original text; the part is unchanged and the record contributes
  zero to \<open>tokensSaved\<close> when its payload holds the text under the first recognised key
  present.
\<close>

lemma every_prunable_offloaded:
  assumes wf: "wf_history s history"
    and trig: "30000 \<le> totalPrunableTokens (scan_of e s history)"
    and io: "\<forall>k\<le>length (prunableParts (scan_of e s history)). \<not> io_fails e k"
  shows "\<exists>r s' tr. mask e s history = (Inr r, s', tr) \<and>
      maskedCount r = length (prunableParts (scan_of e s history)) \<and>
      map snd (written_files tr) = map content (prunableParts (scan_of e s history)) \<and>
      tokensSaved r = sum_list (map (\<lambda>item. int (tokens item)
              - int (estimateTokenCountSync e
                  [history_view s' (newHistory r) ! contentIndex item ! partIndex item]))
            (prunableParts (scan_of e s history))) \<and>
      (\<forall>item\<in>set (prunableParts (scan_of e s history)).
         length (content item) \<le> 50000 \<longrightarrow>
           getObservationContent (history_view s' (newHistory r) ! contentIndex item ! partIndex item)
             = Some (content item) \<and>
           (text_key_first (history_view s history ! contentIndex item ! partIndex item) \<longrightarrow>
              history_view s' (newHistory r) ! contentIndex item ! partIndex item
                = history_view s history ! contentIndex item ! partIndex item \<and>
              int (tokens item) - int (estimateTokenCountSync e
                  [history_view s' (newHistory r) ! contentIndex item ! partIndex item]) = 0))"
proof -
  let ?items = "prunableParts (scan_of e s history)"
  let ?V = "history_view s history"
  from mask_success_view[OF wf trig io] obtain r s' tr where
    m: "mask e s history = (Inr r, s', tr)"
    and cnt: "maskedCount r = length ?items"
    and wr: "map snd (written_files tr) = map content ?items"
    and sv: "tokensSaved r = sum_list (map (\<lambda>item. int (tokens item)
              - int (estimateTokenCountSync e
                  [history_view s' (newHistory r) ! contentIndex item ! partIndex item])) ?items)"
    and at: "\<forall>n<length ?items.
         history_view s' (newHistory r) ! contentIndex (?items ! n) ! partIndex (?items ! n)
           = masked_at e (observationDir_of e) n (?items ! n)
               (?V ! contentIndex (?items ! n) ! partIndex (?items ! n))"
    by blast
  have small: "getObservationContent (history_view s' (newHistory r) ! contentIndex item ! partIndex item)
             = Some (content item) \<and>
           (text_key_first (?V ! contentIndex item ! partIndex item) \<longrightarrow>
              history_view s' (newHistory r) ! contentIndex item ! partIndex item
                = ?V ! contentIndex item ! partIndex item \<and>
              int (tokens item) - int (estimateTokenCountSync e
                  [history_view s' (newHistory r) ! contentIndex item ! partIndex item]) = 0)"
    if item: "item \<in> set ?items" and len: "length (content item) \<le> 50000" for item
  proof -
    let ?p = "?V ! contentIndex item ! partIndex item"
    note f = prunable_facts[OF item]
    from item obtain n where n: "n < length ?items" "?items ! n = item"
      by (auto simp: in_set_conv_nth)
    with at have v': "history_view s' (newHistory r) ! contentIndex item ! partIndex item
        = masked_at e (observationDir_of e) n item ?p"
      by auto
    have mk: "maskable ?p" using f(3) by (rule qualifying_maskable)
    then have fr: "functionResponse ?p \<noteq> None"
      by (auto simp: maskable_def split: option.splits)
    have c: "getObservationContent (masked_at e (observationDir_of e) n item ?p) = Some (content item)"
      using masked_at_content[OF mk f(5)] snippet_at_small[OF len fr] by simp
    have "masked_at e (observationDir_of e) n item ?p = ?p" if "text_key_first ?p"
      using masked_at_small_same[OF that f(4) len] .
    with c f(7) show ?thesis
      unfolding v' by simp
  qed
  from m cnt wr sv small show ?thesis by blast
qed

subsection \<open>Several prunable records in one turn\<close>

text \<open>
  Claim C10. In the returned history, the position of every prunable record holds the part
  masked from the original part at that position with the snippet of that record, also when
  several records lie in the same turn; the text read there is the snippet. Every other
  position holds the original part, and the shape of the history is unchanged. No masking is
  reverted by a later one.
\<close>

theorem maskings_survive:
  assumes wf: "wf_history s history"
    and trig: "30000 \<le> totalPrunableTokens (scan_of e s history)"
    and io: "\<forall>k\<le>length (prunableParts (scan_of e s history)). \<not> io_fails e k"
  shows "\<exists>r s' tr. mask e s history = (Inr r, s', tr) \<and>
      (\<forall>n<length (prunableParts (scan_of e s history)).
         history_view s' (newHistory r) ! contentIndex (prunableParts (scan_of e s history) ! n)
             ! partIndex (prunableParts (scan_of e s history) ! n)
           = masked_at e (observationDir_of e) n (prunableParts (scan_of e s history) ! n)
               (history_view s history ! contentIndex (prunableParts (scan_of e s history) ! n)
                  ! partIndex (prunableParts (scan_of e s history) ! n)) \<and>
         getObservationContent
             (history_view s' (newHistory r) ! contentIndex (prunableParts (scan_of e s history) ! n)
                ! partIndex (prunableParts (scan_of e s history) ! n))
           = Some (snippet_at e (observationDir_of e) n (prunableParts (scan_of e s history) ! n)
               (history_view s history ! contentIndex (prunableParts (scan_of e s history) ! n)
                  ! partIndex (prunableParts (scan_of e s history) ! n)))) \<and>
      (\<forall>i j. (i, j) \<notin> position ` set (prunableParts (scan_of e s history)) \<longrightarrow>
         history_view s' (newHistory r) ! i ! j = history_view s history ! i ! j) \<and>
      length (history_view s' (newHistory r)) = length (history_view s history) \<and>
      (\<forall>i. length (history_view s' (newHistory r) ! i) = length (history_view s history ! i))"
proof -
  let ?items = "prunableParts (scan_of e s history)"
  let ?V = "history_view s history"
  from mask_success_view[OF wf trig io] obtain r s' tr where
    m: "mask e s history = (Inr r, s', tr)"
    and at: "\<forall>n<length ?items.
         history_view s' (newHistory r) ! contentIndex (?items ! n) ! partIndex (?items ! n)
           = masked_at e (observationDir_of e) n (?items ! n)
               (?V ! contentIndex (?items ! n) ! partIndex (?items ! n))"
    and other: "\<forall>i j. (i, j) \<notin> set (map position ?items) \<longrightarrow>
         history_view s' (newHistory r) ! i ! j = ?V ! i ! j"
    and shape: "length (history_view s' (newHistory r)) = length ?V"
      "\<forall>i. length (history_view s' (newHistory r) ! i) = length (?V ! i)"
    by blast
  have c: "getObservationContent (masked_at e (observationDir_of e) n (?items ! n)
               (?V ! contentIndex (?items ! n) ! partIndex (?items ! n)))
           = Some (snippet_at e (observationDir_of e) n (?items ! n)
               (?V ! contentIndex (?items ! n) ! partIndex (?items ! n)))"
    if "n < length ?items" for n
  proof -
    from that have item: "?items ! n \<in> set ?items" by simp
    note f = prunable_facts[OF item]
    show ?thesis
      using masked_at_content[OF qualifying_maskable[OF f(3)] f(5)] .
  qed
  from m at c other shape show ?thesis
    by (intro exI[of _ r] exI[of _ s'] exI[of _ tr]) simp
qed

lemma mask_item_written:
  "mask_item e dir nh k item ls = (r, ls') \<Longrightarrow>
   snd ` set (written_files (effects ls')) \<subseteq> snd ` set (written_files (effects ls)) \<union> {content item}"
  by (auto simp: mask_item_def Let_def written_files_def
      split: if_splits option.splits sum.splits)

lemma mask_loop_written:
  "mask_loop e dir nh k items ls = (r, ls') \<Longrightarrow>
   snd ` set (written_files (effects ls'))
     \<subseteq> snd ` set (written_files (effects ls)) \<union> content ` set items"
proof (induction items arbitrary: k ls)
  case Nil
  then show ?case by simp
next
  case (Cons item items)
  obtain r1 ls1 where step: "mask_item e dir nh k item ls = (r1, ls1)"
    by (cases "mask_item e dir nh k item ls")
  note w1 = mask_item_written[OF step]
  show ?case
  proof (cases r1)
    case None
    with Cons.prems step have "mask_loop e dir nh (Suc k) items ls1 = (r, ls')" by simp
    from Cons.IH[OF this] w1 show ?thesis by auto
  next
    case (Some err)
    with Cons.prems step have "ls' = ls1" by simp
    with w1 show ?thesis by auto
  qed
qed

lemma mask_written:
  assumes "mask e s history = (r, s', tr)"
  shows "snd ` set (written_files tr) \<subseteq> content ` set (prunableParts (scan_of e s history))"
proof -
  have w0: "written_files (trace (scan_of e s history)) = []"
    by (rule written_files_estimates[OF scan_trace_estimates])
  consider (empty) "h_history s ! history = []"
    | (below) "h_history s ! history \<noteq> []"
        "totalPrunableTokens (scan_of e s history) < HYSTERESIS_THRESHOLD"
    | (mkdir) "h_history s ! history \<noteq> []"
        "\<not> totalPrunableTokens (scan_of e s history) < HYSTERESIS_THRESHOLD" "io_fails e 0"
    | (loop) "h_history s ! history \<noteq> []"
        "\<not> totalPrunableTokens (scan_of e s history) < HYSTERESIS_THRESHOLD" "\<not> io_fails e 0"
    by blast
  then show ?thesis
  proof cases
    case empty
    with assms show ?thesis by (auto simp: mask_empty written_files_def)
  next
    case below
    with assms w0 show ?thesis by (auto simp: mask_below)
  next
    case mkdir
    with assms w0 show ?thesis
      by (auto simp: mask_mkdir_fails written_files_append) (simp add: written_files_def trigger_log_def)
  next
    case loop
    obtain r1 ls1 where l: "mask_loop e (observationDir_of e) (length (h_history s)) 0
        (prunableParts (scan_of e s history)) (loop_start e s history) = (r1, ls1)"
      by (cases "mask_loop e (observationDir_of e) (length (h_history s)) 0
        (prunableParts (scan_of e s history)) (loop_start e s history)")
    have s0: "written_files (effects (loop_start e s history)) = []"
      using w0 by (simp add: loop_start_def written_files_append)
        (simp add: written_files_def trigger_log_def)
    from mask_loop_written[OF l] s0
    have w1: "snd ` set (written_files (effects ls1))
        \<subseteq> content ` set (prunableParts (scan_of e s history))"
      by simp
    have f: "written_files (final_effects (scan_of e s history) ls1) = []"
      by (simp add: written_files_def final_effects_def)
    have "tr = effects ls1 \<or> tr = effects ls1 @ final_effects (scan_of e s history) ls1"
      using assms mask_triggers[OF loop l] by (auto split: option.splits)
    then have "written_files tr = written_files (effects ls1)"
      using f by (auto simp: written_files_append)
    with w1 show ?thesis by simp
  qed
qed

subsection \<open>Running the service again\<close>

text \<open>
  Claim C5, as amended. After a triggering run, every part that the run truncated (a prunable
  record of more than 50,000 characters) carries the marker in the returned history, and a
  second run of \<open>mask\<close> on the returned history, with any collaborators, leaves it alone: the
  loop body of the scan does not change the scan state on it (it is not counted toward the
  50,000 budget), its position is not in the prunable list, and its text is not written to
  any file. A record of at most 50,000 characters is replaced by its own text, without the
  marker, and is scanned again.
\<close>

theorem truncated_parts_excluded:
  assumes wf: "wf_history s history"
    and trig: "30000 \<le> totalPrunableTokens (scan_of e s history)"
    and io: "\<forall>k\<le>length (prunableParts (scan_of e s history)). \<not> io_fails e k"
  shows "\<exists>r s' tr. mask e s history = (Inr r, s', tr) \<and>
      (\<forall>item\<in>set (prunableParts (scan_of e s history)).
         50000 < length (content item) \<longrightarrow>
           (\<exists>snip. getObservationContent
                       (history_view s' (newHistory r) ! contentIndex item ! partIndex item) = Some snip
                  \<and> isAlreadyMasked snip
                  \<and> (\<forall>e2 r2 s2 tr2. mask e2 s' (newHistory r) = (r2, s2, tr2)
                        \<longrightarrow> snip \<notin> snd ` set (written_files tr2))) \<and>
           (\<forall>e2 i j sc. scan_part e2 i j
                 (history_view s' (newHistory r) ! contentIndex item ! partIndex item) sc = sc) \<and>
           (\<forall>e2. position item \<notin> position ` set (prunableParts (scan_of e2 s' (newHistory r)))))"
proof -
  let ?items = "prunableParts (scan_of e s history)"
  let ?V = "history_view s history"
  from mask_success_view[OF wf trig io] obtain r s' tr where
    m: "mask e s history = (Inr r, s', tr)"
    and at: "\<forall>n<length ?items.
         history_view s' (newHistory r) ! contentIndex (?items ! n) ! partIndex (?items ! n)
           = masked_at e (observationDir_of e) n (?items ! n)
               (?V ! contentIndex (?items ! n) ! partIndex (?items ! n))"
    by blast
  have big: "(\<exists>snip. getObservationContent
                       (history_view s' (newHistory r) ! contentIndex item ! partIndex item) = Some snip
                  \<and> isAlreadyMasked snip
                  \<and> (\<forall>e2 r2 s2 tr2. mask e2 s' (newHistory r) = (r2, s2, tr2)
                        \<longrightarrow> snip \<notin> snd ` set (written_files tr2))) \<and>
           (\<forall>e2 i j sc. scan_part e2 i j
                 (history_view s' (newHistory r) ! contentIndex item ! partIndex item) sc = sc) \<and>
           (\<forall>e2. position item \<notin> position ` set (prunableParts (scan_of e2 s' (newHistory r))))"
    if item: "item \<in> set ?items" and len: "50000 < length (content item)" for item
  proof -
    let ?p = "?V ! contentIndex item ! partIndex item"
    let ?p' = "history_view s' (newHistory r) ! contentIndex item ! partIndex item"
    note f = prunable_facts[OF item]
    from item obtain n where n: "n < length ?items" "?items ! n = item"
      by (auto simp: in_set_conv_nth)
    with at have v': "?p' = masked_at e (observationDir_of e) n item ?p"
      by auto
    have mk: "maskable ?p" using f(3) by (rule qualifying_maskable)
    then have fr: "functionResponse ?p \<noteq> None"
      by (auto simp: maskable_def split: option.splits)
    define snip where "snip = snippet_at e (observationDir_of e) n item ?p"
    have c: "getObservationContent ?p' = Some snip"
      unfolding v' snip_def by (rule masked_at_content[OF mk f(5)])
    have mkd: "isAlreadyMasked snip"
      unfolding snip_def by (rule snippet_at_marked[OF len fr])
    have nq: "\<not> qualifying ?p'"
      using c mkd by (simp add: qualifying_def)
    have notwritten: "snip \<notin> snd ` set (written_files tr2)"
      if "mask e2 s' (newHistory r) = (r2, s2, tr2)" for e2 r2 s2 tr2
    proof
      assume "snip \<in> snd ` set (written_files tr2)"
      with mask_written[OF that] obtain item2 where
        i2: "item2 \<in> set (prunableParts (scan_of e2 s' (newHistory r)))" and "snip = content item2"
        by auto
      with prunable_facts(6)[OF i2] mkd show False by simp
    qed
    have notpos: "position item \<notin> position ` set (prunableParts (scan_of e2 s' (newHistory r)))" for e2
    proof
      assume "position item \<in> position ` set (prunableParts (scan_of e2 s' (newHistory r)))"
      then obtain item2 where i2: "item2 \<in> set (prunableParts (scan_of e2 s' (newHistory r)))"
        and "position item2 = position item" by auto
      then have "contentIndex item2 = contentIndex item" "partIndex item2 = partIndex item"
        by (simp_all add: position_def)
      with prunable_facts(3)[OF i2] nq show False by simp
    qed
    from c mkd notwritten nq notpos show ?thesis
      by (auto simp: scan_part_cases)
  qed
  from m big show ?thesis by blast
qed

lemma scan_order_view:
  "scan_order s (h_history s ! a) =
     concat (map (\<lambda>i. map (\<lambda>j. (i, j, history_view s a ! i ! j))
                          (rev [0..<length (history_view s a ! i)]))
                 (rev [0..<length (history_view s a)]))"
  unfolding scan_order_def
  by (intro arg_cong[where f = concat] map_cong refl)
    (auto simp: history_view_def turn_view_def)

lemma scan_view_cong:
  assumes "history_view s a = history_view s' a'"
  shows "scan_of e s a = scan_of e s' a'"
  unfolding scan_of_account scan_order_view assms ..

lemma small_records_identity:
  assumes wf: "wf_history s history"
    and trig: "30000 \<le> totalPrunableTokens (scan_of e s history)"
    and io: "\<forall>k\<le>length (prunableParts (scan_of e s history)). \<not> io_fails e k"
    and small: "\<forall>item\<in>set (prunableParts (scan_of e s history)).
        length (content item) \<le> 50000 \<and>
        text_key_first (history_view s history ! contentIndex item ! partIndex item)"
  shows "\<exists>s' tr. mask e s history =
           (Inr \<lparr>newHistory = length (h_history s),
                 maskedCount = length (prunableParts (scan_of e s history)), tokensSaved = 0\<rparr>, s', tr) \<and>
         wf_history s' (length (h_history s)) \<and>
         history_view s' (length (h_history s)) = history_view s history \<and>
         map snd (written_files tr) = map content (prunableParts (scan_of e s history))"
proof -
  let ?items = "prunableParts (scan_of e s history)"
  let ?V = "history_view s history"
  from mask_success_view[OF wf trig io] obtain r s' tr where
    m: "mask e s history = (Inr r, s', tr)"
    and nh: "newHistory r = length (h_history s)"
    and cnt: "maskedCount r = length ?items"
    and w: "wf_history s' (newHistory r)"
    and wr: "map snd (written_files tr) = map content ?items"
    and sv: "tokensSaved r = sum_list (map (\<lambda>item. int (tokens item)
              - int (estimateTokenCountSync e
                  [history_view s' (newHistory r) ! contentIndex item ! partIndex item])) ?items)"
    and at: "\<forall>n<length ?items.
         history_view s' (newHistory r) ! contentIndex (?items ! n) ! partIndex (?items ! n)
           = masked_at e (observationDir_of e) n (?items ! n)
               (?V ! contentIndex (?items ! n) ! partIndex (?items ! n))"
    and other: "\<forall>i j. (i, j) \<notin> set (map position ?items) \<longrightarrow>
         history_view s' (newHistory r) ! i ! j = ?V ! i ! j"
    and shape: "length (history_view s' (newHistory r)) = length ?V"
      "\<forall>i. length (history_view s' (newHistory r) ! i) = length (?V ! i)"
    by blast
  have same_at: "history_view s' (newHistory r) ! contentIndex item ! partIndex item
      = ?V ! contentIndex item ! partIndex item" if item: "item \<in> set ?items" for item
  proof -
    from item obtain n where n: "n < length ?items" "?items ! n = item"
      by (auto simp: in_set_conv_nth)
    from small item have "length (content item) \<le> 50000"
      "text_key_first (?V ! contentIndex item ! partIndex item)" by blast+
    from masked_at_small_same[OF this(2) prunable_facts(4)[OF item] this(1)] at n
    show ?thesis by auto
  qed
  have cell: "history_view s' (newHistory r) ! i ! j = ?V ! i ! j" for i j
  proof (cases "(i, j) \<in> set (map position ?items)")
    case True
    then obtain item where "item \<in> set ?items" "position item = (i, j)" by auto
    with same_at[of item] show ?thesis by (simp add: position_def)
  next
    case False
    with other show ?thesis by blast
  qed
  have view: "history_view s' (newHistory r) = ?V"
    using shape cell by (simp add: list_eq_iff_nth_eq)
  have "tokensSaved r = sum_list (map (\<lambda>item. 0) ?items)"
    unfolding sv
  proof (intro arg_cong[where f = sum_list] map_cong refl)
    fix item assume item: "item \<in> set ?items"
    from prunable_facts(7)[OF item] same_at[OF item]
    show "int (tokens item) - int (estimateTokenCountSync e
        [history_view s' (newHistory r) ! contentIndex item ! partIndex item]) = 0"
      by simp
  qed
  then have sv0: "tokensSaved r = 0" by simp
  have "r = \<lparr>newHistory = length (h_history s), maskedCount = length ?items, tokensSaved = 0\<rparr>"
    using nh cnt sv0 by (cases r) simp
  with m w view wr nh show ?thesis by auto
qed

lemma scan_idem_turns:
  "estimateTokenCountSync e = chars_estimate \<Longrightarrow>
   scan_of e idem_turns 0 =
     \<lparr>cumulativeToolTokens = 90000, protectionBoundaryReached = True, totalPrunableTokens = 40000,
      prunableParts = [\<lparr>contentIndex = 0, partIndex = 0, tokens = 40000,
                        content = replicate 40000 (CHR ''A'')\<rparr>],
      trace = [Estimate [tool_part ''tool2'' (replicate 50000 (CHR ''B''))],
               Estimate [tool_part ''tool1'' (replicate 40000 (CHR ''A''))]]\<rparr>"
  by (simp add: scan_eval idem_turns_def)

lemma scan_shared_turn:
  "estimateTokenCountSync e = chars_estimate \<Longrightarrow>
   scan_of e shared_turn 0 =
     \<lparr>cumulativeToolTokens = 80000, protectionBoundaryReached = True, totalPrunableTokens = 120000,
      prunableParts = [\<lparr>contentIndex = 0, partIndex = 1, tokens = 60000,
                        content = replicate 60000 (CHR ''B'')\<rparr>,
                       \<lparr>contentIndex = 0, partIndex = 0, tokens = 60000,
                        content = replicate 60000 (CHR ''A'')\<rparr>],
      trace = [Estimate [tool_part ''tool3'' (replicate 20000 (CHR ''C''))],
               Estimate [tool_part ''tool2'' (replicate 60000 (CHR ''B''))],
               Estimate [tool_part ''tool1'' (replicate 60000 (CHR ''A''))]]\<rparr>"
  by (simp add: scan_eval shared_turn_def)

lemma view_idem_turns:
  "history_view idem_turns 0 = [[tool_part ''tool1'' (replicate 40000 (CHR ''A''))],
                                [tool_part ''tool2'' (replicate 50000 (CHR ''B''))]]"
  by (simp add: history_view_def turn_view_def parts_of_def idem_turns_def)

lemma view_shared_turn:
  "history_view shared_turn 0 = [[tool_part ''tool1'' (replicate 60000 (CHR ''A'')),
                                  tool_part ''tool2'' (replicate 60000 (CHR ''B''))],
                                 [tool_part ''tool3'' (replicate 20000 (CHR ''C''))]]"
  by (simp add: history_view_def turn_view_def parts_of_def shared_turn_def)

lemma view_three_turns:
  "history_view three_turns 0 = [[tool_part ''tool1'' (replicate 60000 (CHR ''A''))],
                                 [tool_part ''tool2'' (replicate 60000 (CHR ''B''))],
                                 [tool_part ''tool3'' (replicate 20000 (CHR ''C''))]]"
  by (simp add: history_view_def turn_view_def parts_of_def three_turns_def)

lemma text_key_first_tool_part: "text_key_first (tool_part n out)"
  by (simp add: text_key_first_def tool_part_def has_key_def string_at_def)

lemma wf_fixtures: "wf_history idem_turns 0" "wf_history shared_turn 0" "wf_history three_turns 0"
  by (simp_all add: wf_history_def idem_turns_def shared_turn_def three_turns_def)

lemma io_test_env: "\<not> io_fails test_env k"
  by (simp add: test_env_def)

lemma every_prunable_offloaded_example:
  "\<exists>r s' tr. mask test_env idem_turns 0 = (Inr r, s', tr) \<and> maskedCount r = 1 \<and>
     map snd (written_files tr) = [replicate 40000 (CHR ''A'')] \<and>
     getObservationContent (history_view s' (newHistory r) ! 0 ! 0) = Some (replicate 40000 (CHR ''A'')) \<and>
     history_view s' (newHistory r) ! 0 ! 0 = tool_part ''tool1'' (replicate 40000 (CHR ''A''))"
proof -
  let ?item = "\<lparr>contentIndex = 0, partIndex = 0, tokens = 40000, content = replicate 40000 (CHR ''A'')\<rparr>"
  have items: "prunableParts (scan_of test_env idem_turns 0) = [?item]"
    by (simp add: scan_idem_turns est_test_env)
  have trig: "30000 \<le> totalPrunableTokens (scan_of test_env idem_turns 0)"
    by (simp add: scan_idem_turns est_test_env)
  have io: "\<forall>k\<le>length (prunableParts (scan_of test_env idem_turns 0)). \<not> io_fails test_env k"
    by (simp add: io_test_env)
  from every_prunable_offloaded[OF wf_fixtures(1) trig io] obtain r s' tr where
    m: "mask test_env idem_turns 0 = (Inr r, s', tr)"
    and cnt: "maskedCount r = length (prunableParts (scan_of test_env idem_turns 0))"
    and wr: "map snd (written_files tr) = map content (prunableParts (scan_of test_env idem_turns 0))"
    and small: "\<forall>item\<in>set (prunableParts (scan_of test_env idem_turns 0)).
         length (content item) \<le> 50000 \<longrightarrow>
           getObservationContent (history_view s' (newHistory r) ! contentIndex item ! partIndex item)
             = Some (content item) \<and>
           (text_key_first (history_view idem_turns 0 ! contentIndex item ! partIndex item) \<longrightarrow>
              history_view s' (newHistory r) ! contentIndex item ! partIndex item
                = history_view idem_turns 0 ! contentIndex item ! partIndex item \<and>
              int (tokens item) - int (estimateTokenCountSync test_env
                  [history_view s' (newHistory r) ! contentIndex item ! partIndex item]) = 0)"
    by blast
  from small[unfolded items, simplified] have
    "getObservationContent (history_view s' (newHistory r) ! 0 ! 0) = Some (replicate 40000 (CHR ''A''))"
    "history_view s' (newHistory r) ! 0 ! 0 = tool_part ''tool1'' (replicate 40000 (CHR ''A''))"
    by (simp_all add: view_idem_turns text_key_first_tool_part content_tool_part)
  with m cnt wr show ?thesis
    unfolding items by auto
qed

theorem maskings_survive_witness:
  "\<exists>r s' tr. mask test_env shared_turn 0 = (Inr r, s', tr) \<and>
     (\<exists>a. getObservationContent (history_view s' (newHistory r) ! 0 ! 1) = Some a \<and> isAlreadyMasked a) \<and>
     (\<exists>b. getObservationContent (history_view s' (newHistory r) ! 0 ! 0) = Some b \<and> isAlreadyMasked b) \<and>
     history_view s' (newHistory r) ! 1 ! 0 = tool_part ''tool3'' (replicate 20000 (CHR ''C''))"
proof -
  let ?b = "\<lparr>contentIndex = 0, partIndex = 1, tokens = 60000, content = replicate 60000 (CHR ''B'')\<rparr>"
  let ?a = "\<lparr>contentIndex = 0, partIndex = 0, tokens = 60000, content = replicate 60000 (CHR ''A'')\<rparr>"
  have items: "prunableParts (scan_of test_env shared_turn 0) = [?b, ?a]"
    by (simp add: scan_shared_turn est_test_env)
  have trig: "30000 \<le> totalPrunableTokens (scan_of test_env shared_turn 0)"
    by (simp add: scan_shared_turn est_test_env)
  have io: "\<forall>k\<le>length (prunableParts (scan_of test_env shared_turn 0)). \<not> io_fails test_env k"
    by (simp add: io_test_env)
  from maskings_survive[OF wf_fixtures(2) trig io] obtain r s' tr where
    m: "mask test_env shared_turn 0 = (Inr r, s', tr)"
    and at: "\<forall>n<length (prunableParts (scan_of test_env shared_turn 0)).
         getObservationContent
             (history_view s' (newHistory r) ! contentIndex (prunableParts (scan_of test_env shared_turn 0) ! n)
                ! partIndex (prunableParts (scan_of test_env shared_turn 0) ! n))
           = Some (snippet_at test_env (observationDir_of test_env) n
               (prunableParts (scan_of test_env shared_turn 0) ! n)
               (history_view shared_turn 0 ! contentIndex (prunableParts (scan_of test_env shared_turn 0) ! n)
                  ! partIndex (prunableParts (scan_of test_env shared_turn 0) ! n)))"
    and other: "\<forall>i j. (i, j) \<notin> position ` set (prunableParts (scan_of test_env shared_turn 0)) \<longrightarrow>
         history_view s' (newHistory r) ! i ! j = history_view shared_turn 0 ! i ! j"
    by blast
  have fr: "functionResponse (tool_part n out) \<noteq> None" for n out
    by (simp add: tool_part_def)
  from at[unfolded items, rule_format, of 0]
  have c1: "getObservationContent (history_view s' (newHistory r) ! 0 ! 1)
      = Some (snippet_at test_env (observationDir_of test_env) 0 ?b
                (tool_part ''tool2'' (replicate 60000 (CHR ''B''))))"
    by (simp add: view_shared_turn)
  have m1: "isAlreadyMasked (snippet_at test_env (observationDir_of test_env) 0 ?b
                (tool_part ''tool2'' (replicate 60000 (CHR ''B''))))"
    by (rule snippet_at_marked[OF _ fr]) simp
  from at[unfolded items, rule_format, of 1]
  have c0: "getObservationContent (history_view s' (newHistory r) ! 0 ! 0)
      = Some (snippet_at test_env (observationDir_of test_env) 1 ?a
                (tool_part ''tool1'' (replicate 60000 (CHR ''A''))))"
    by (simp add: view_shared_turn)
  have m0: "isAlreadyMasked (snippet_at test_env (observationDir_of test_env) 1 ?a
                (tool_part ''tool1'' (replicate 60000 (CHR ''A''))))"
    by (rule snippet_at_marked[OF _ fr]) simp
  from other[unfolded items, rule_format, of 1 0]
  have o: "history_view s' (newHistory r) ! 1 ! 0 = tool_part ''tool3'' (replicate 20000 (CHR ''C''))"
    by (simp add: view_shared_turn position_def)
  from m c1 m1 c0 m0 o show ?thesis by blast
qed

theorem truncated_parts_excluded_witness:
  "\<exists>r s' tr. mask test_env three_turns 0 = (Inr r, s', tr) \<and>
     \<not> qualifying (history_view s' (newHistory r) ! 1 ! 0) \<and>
     (1, 0) \<notin> position ` set (prunableParts (scan_of test_env s' (newHistory r))) \<and>
     (0, 0) \<notin> position ` set (prunableParts (scan_of test_env s' (newHistory r)))"
proof -
  let ?b = "\<lparr>contentIndex = 1, partIndex = 0, tokens = 60000, content = replicate 60000 (CHR ''B'')\<rparr>"
  let ?a = "\<lparr>contentIndex = 0, partIndex = 0, tokens = 60000, content = replicate 60000 (CHR ''A'')\<rparr>"
  have items: "prunableParts (scan_of test_env three_turns 0) = [?b, ?a]"
    by (simp add: scan_three_turns est_test_env)
  have trig: "30000 \<le> totalPrunableTokens (scan_of test_env three_turns 0)"
    by (simp add: scan_three_turns est_test_env)
  have io: "\<forall>k\<le>length (prunableParts (scan_of test_env three_turns 0)). \<not> io_fails test_env k"
    by (simp add: io_test_env)
  from truncated_parts_excluded[OF wf_fixtures(3) trig io] obtain r s' tr where
    m: "mask test_env three_turns 0 = (Inr r, s', tr)"
    and ex: "\<forall>item\<in>set (prunableParts (scan_of test_env three_turns 0)).
         50000 < length (content item) \<longrightarrow>
           (\<exists>snip. getObservationContent
                       (history_view s' (newHistory r) ! contentIndex item ! partIndex item) = Some snip
                  \<and> isAlreadyMasked snip
                  \<and> (\<forall>e2 r2 s2 tr2. mask e2 s' (newHistory r) = (r2, s2, tr2)
                        \<longrightarrow> snip \<notin> snd ` set (written_files tr2))) \<and>
           (\<forall>e2 i j sc. scan_part e2 i j
                 (history_view s' (newHistory r) ! contentIndex item ! partIndex item) sc = sc) \<and>
           (\<forall>e2. position item \<notin> position ` set (prunableParts (scan_of e2 s' (newHistory r))))"
    by blast
  from ex[unfolded items, rule_format, of ?b] obtain snip where
    "getObservationContent (history_view s' (newHistory r) ! 1 ! 0) = Some snip" "isAlreadyMasked snip"
    and b: "(1, 0) \<notin> position ` set (prunableParts (scan_of test_env s' (newHistory r)))"
    by (auto simp: position_def)
  then have nq: "\<not> qualifying (history_view s' (newHistory r) ! 1 ! 0)"
    by (simp add: qualifying_def)
  from ex[unfolded items, rule_format, of ?a]
  have a: "(0, 0) \<notin> position ` set (prunableParts (scan_of test_env s' (newHistory r)))"
    by (auto simp: position_def)
  from m nq b a show ?thesis by blast
qed

text \<open>
  Claim C5 as stated fails for a record of at most 50,000 characters. On the history
  \<open>idem_turns\<close> the first run masks one record (\<open>maskedCount = 1\<close>) of 40,000 characters; on the
  returned history the scan puts the same position in the prunable list again, and the second
  run writes its text to a file again.
\<close>

theorem remask_counterexample:
  "fst (mask test_env idem_turns 0) = Inr \<lparr>newHistory = 1, maskedCount = 1, tokensSaved = 0\<rparr> \<and>
   prunableParts (scan_of test_env (fst (snd (mask test_env idem_turns 0))) 1)
     = [\<lparr>contentIndex = 0, partIndex = 0, tokens = 40000, content = replicate 40000 (CHR ''A'')\<rparr>] \<and>
   map snd (written_files (snd (snd (mask test_env (fst (snd (mask test_env idem_turns 0))) 1))))
     = [replicate 40000 (CHR ''A'')]"
proof -
  let ?item = "\<lparr>contentIndex = 0, partIndex = 0, tokens = 40000, content = replicate 40000 (CHR ''A'')\<rparr>"
  have items: "prunableParts (scan_of test_env idem_turns 0) = [?item]"
    by (simp add: scan_idem_turns est_test_env)
  have trig: "30000 \<le> totalPrunableTokens (scan_of test_env idem_turns 0)"
    by (simp add: scan_idem_turns est_test_env)
  have io: "\<forall>k\<le>length (prunableParts (scan_of test_env idem_turns 0)). \<not> io_fails test_env k"
    by (simp add: io_test_env)
  have small: "\<forall>item\<in>set (prunableParts (scan_of test_env idem_turns 0)).
        length (content item) \<le> 50000 \<and>
        text_key_first (history_view idem_turns 0 ! contentIndex item ! partIndex item)"
    by (simp add: items view_idem_turns text_key_first_tool_part)
  from small_records_identity[OF wf_fixtures(1) trig io small] obtain s' tr where
    m: "mask test_env idem_turns 0
          = (Inr \<lparr>newHistory = length (h_history idem_turns),
                   maskedCount = length (prunableParts (scan_of test_env idem_turns 0)),
                   tokensSaved = 0\<rparr>, s', tr)"
    and w: "wf_history s' (length (h_history idem_turns))"
    and v: "history_view s' (length (h_history idem_turns)) = history_view idem_turns 0"
    by blast
  have len: "length (h_history idem_turns) = 1"
    by (simp add: idem_turns_def)
  have sc: "scan_of test_env s' 1 = scan_of test_env idem_turns 0"
    using scan_view_cong[OF v] by (simp add: len)
  have v1: "history_view s' 1 = history_view idem_turns 0"
    using v by (simp add: len)
  have trig2: "30000 \<le> totalPrunableTokens (scan_of test_env s' 1)"
    unfolding sc by (rule trig)
  have io2: "\<forall>k\<le>length (prunableParts (scan_of test_env s' 1)). \<not> io_fails test_env k"
    by (simp add: io_test_env)
  have small2: "\<forall>item\<in>set (prunableParts (scan_of test_env s' 1)).
        length (content item) \<le> 50000 \<and>
        text_key_first (history_view s' 1 ! contentIndex item ! partIndex item)"
    unfolding sc v1 by (rule small)
  from w have w1: "wf_history s' 1" by (simp add: len)
  from small_records_identity[OF w1 trig2 io2 small2] obtain s2 tr2 where
    m2: "mask test_env s' 1
          = (Inr \<lparr>newHistory = length (h_history s'),
                   maskedCount = length (prunableParts (scan_of test_env s' 1)),
                   tokensSaved = 0\<rparr>, s2, tr2)"
    and wr2: "map snd (written_files tr2) = map content (prunableParts (scan_of test_env s' 1))"
    by blast
  have s'eq: "fst (snd (mask test_env idem_turns 0)) = s'"
    by (simp add: m)
  have "fst (mask test_env idem_turns 0) = Inr \<lparr>newHistory = 1, maskedCount = 1, tokensSaved = 0\<rparr>"
    by (simp add: m items len)
  moreover have "prunableParts (scan_of test_env s' 1) = [?item]"
    unfolding sc by (rule items)
  moreover have "map snd (written_files (snd (snd (mask test_env s' 1)))) = [replicate 40000 (CHR ''A'')]"
    unfolding m2 using wr2 unfolding sc items by simp
  ultimately show ?thesis
    unfolding s'eq by blast
qed

lemma content_mixed_part: "getObservationContent mixed_part = Some (replicate 60000 (CHR ''A''))"
  by (simp add: getObservationContent_def mixed_part_def mixed_payload_def string_at_def)

lemma qualifying_mixed_part: "qualifying mixed_part"
  by (simp add: qualifying_def content_mixed_part not_masked_replicate)

lemma scan_mixed_turns:
  "estimateTokenCountSync e = chars_estimate \<Longrightarrow>
   scan_of e mixed_turns 0 =
     \<lparr>cumulativeToolTokens = 80000, protectionBoundaryReached = True, totalPrunableTokens = 60000,
      prunableParts = [\<lparr>contentIndex = 0, partIndex = 0, tokens = 60000,
                        content = replicate 60000 (CHR ''A'')\<rparr>],
      trace = [Estimate [tool_part ''tool3'' (replicate 20000 (CHR ''C''))],
               Estimate [mixed_part]]\<rparr>"
  by (simp add: scan_eval mixed_turns_def qualifying_mixed_part content_mixed_part chars_estimate_def)

lemma view_mixed_turns:
  "history_view mixed_turns 0 = [[mixed_part], [tool_part ''tool3'' (replicate 20000 (CHR ''C''))]]"
  by (simp add: history_view_def turn_view_def parts_of_def mixed_turns_def)

subsection \<open>The key that is replaced\<close>

text \<open>
  Claim C6 says that the masking step replaces exactly the payload key that held the extracted
  text. \<open>getObservationContent\<close> takes the first of \<open>output\<close>, \<open>result\<close>, \<open>stdout\<close>,
  \<open>content\<close> that is present and holds a string; the replacement takes the first that is
  present, whatever it holds. On a payload whose \<open>output\<close> is a number and whose \<open>result\<close> is
  the text, the text is read from \<open>result\<close> and the snippet is written to \<open>output\<close>: the number
  is lost and the text stays in the history. A run of \<open>mask\<close> on the history \<open>mixed_turns\<close>
  counts the part as masked and returns it with the snippet under \<open>output\<close> and the full
  60,000 characters still under \<open>result\<close>.
\<close>

theorem replaced_key_differs:
  "getObservationContent mixed_part = Some (replicate 60000 (CHR ''A'')) \<and>
   newResponse_of mixed_payload ''snippet''
     = Inr (JObj [(''output'', JStr ''snippet''), (''result'', JStr (replicate 60000 (CHR ''A'')))]) \<and>
   (\<exists>r s' tr fr snip.
      mask test_env mixed_turns 0 = (Inr r, s', tr) \<and> maskedCount r = 1 \<and>
      functionResponse (history_view s' (newHistory r) ! 0 ! 0) = Some fr \<and>
      response fr = JObj [(''output'', JStr snip), (''result'', JStr (replicate 60000 (CHR ''A'')))] \<and>
      isAlreadyMasked snip)"
proof -
  let ?item = "\<lparr>contentIndex = 0, partIndex = 0, tokens = 60000, content = replicate 60000 (CHR ''A'')\<rparr>"
  let ?fr = "\<lparr>name = Some ''tool1'', response = mixed_payload, fr_rest = []\<rparr>"
  let ?snip = "snippet_for test_env (observationDir_of test_env) 0 ?item ?fr"
  have a: "getObservationContent mixed_part = Some (replicate 60000 (CHR ''A''))"
    by (rule content_mixed_part)
  have b: "newResponse_of mixed_payload ''snippet''
     = Inr (JObj [(''output'', JStr ''snippet''), (''result'', JStr (replicate 60000 (CHR ''A'')))])"
    by (simp add: mixed_payload_def newResponse_of_def has_key_def)
  have items: "prunableParts (scan_of test_env mixed_turns 0) = [?item]"
    by (simp add: scan_mixed_turns est_test_env)
  have trig: "30000 \<le> totalPrunableTokens (scan_of test_env mixed_turns 0)"
    by (simp add: scan_mixed_turns est_test_env)
  have io: "\<forall>k\<le>length (prunableParts (scan_of test_env mixed_turns 0)). \<not> io_fails test_env k"
    by (simp add: io_test_env)
  have wf: "wf_history mixed_turns 0"
    by (simp add: wf_history_def mixed_turns_def)
  from mask_success_view[OF wf trig io] obtain r s' tr where
    m: "mask test_env mixed_turns 0 = (Inr r, s', tr)"
    and cnt: "maskedCount r = length (prunableParts (scan_of test_env mixed_turns 0))"
    and at: "\<forall>n<length (prunableParts (scan_of test_env mixed_turns 0)).
         history_view s' (newHistory r) ! contentIndex (prunableParts (scan_of test_env mixed_turns 0) ! n)
             ! partIndex (prunableParts (scan_of test_env mixed_turns 0) ! n)
           = masked_at test_env (observationDir_of test_env) n (prunableParts (scan_of test_env mixed_turns 0) ! n)
               (history_view mixed_turns 0 ! contentIndex (prunableParts (scan_of test_env mixed_turns 0) ! n)
                  ! partIndex (prunableParts (scan_of test_env mixed_turns 0) ! n))"
    by blast
  from at[unfolded items, rule_format, of 0]
  have v: "history_view s' (newHistory r) ! 0 ! 0
      = masked_at test_env (observationDir_of test_env) 0 ?item mixed_part"
    by (simp add: view_mixed_turns)
  have ma: "masked_at test_env (observationDir_of test_env) 0 ?item mixed_part
      = masked_part mixed_part ?fr
          (JObj [(''output'', JStr ?snip), (''result'', JStr (replicate 60000 (CHR ''A'')))])"
    by (simp add: masked_at_def mixed_part_def mixed_payload_def newResponse_of_def has_key_def)
  have mk: "isAlreadyMasked ?snip"
    unfolding snippet_for_def by (rule formatMaskedSnippet_marked) simp
  have "functionResponse (history_view s' (newHistory r) ! 0 ! 0)
      = Some (?fr\<lparr>response := JObj [(''output'', JStr ?snip), (''result'', JStr (replicate 60000 (CHR ''A'')))]\<rparr>)"
    unfolding v ma by (simp add: masked_part_def)
  with m cnt mk a b show ?thesis
    unfolding items
    by (intro conjI exI[of _ r] exI[of _ s'] exI[of _ tr]
        exI[of _ "?fr\<lparr>response := JObj [(''output'', JStr ?snip), (''result'', JStr (replicate 60000 (CHR ''A'')))]\<rparr>"]
        exI[of _ ?snip]) simp_all
qed

lemma content_small_mixed_part:
  "getObservationContent small_mixed_part = Some (replicate 40000 (CHR ''A''))"
  by (simp add: getObservationContent_def small_mixed_part_def string_at_def)

lemma qualifying_small_mixed_part: "qualifying small_mixed_part"
  by (simp add: qualifying_def content_small_mixed_part not_masked_replicate)

lemma payload_estimate_fixtures:
  "payload_estimate [small_mixed_part] = 40000"
  "payload_estimate [tool_part n out] = length out"
  by (simp_all add: payload_estimate_def small_mixed_part_def tool_part_def)

lemma scan_small_mixed_turns:
  "scan_of payload_env small_mixed_turns 0 =
     \<lparr>cumulativeToolTokens = 90000, protectionBoundaryReached = True, totalPrunableTokens = 40000,
      prunableParts = [\<lparr>contentIndex = 0, partIndex = 0, tokens = 40000,
                        content = replicate 40000 (CHR ''A'')\<rparr>],
      trace = [Estimate [tool_part ''tool2'' (replicate 50000 (CHR ''B''))],
               Estimate [small_mixed_part]]\<rparr>"
  by (simp add: scan_of_def scan_part_cases qualifying_tool_part account_def entry_of_def
      init_scan_def parts_of_def content_tool_part TOOL_PROTECTION_THRESHOLD_def Let_def
      small_mixed_turns_def qualifying_small_mixed_part content_small_mixed_part
      payload_env_def payload_estimate_fixtures)

lemma view_small_mixed_turns:
  "history_view small_mixed_turns 0
     = [[small_mixed_part], [tool_part ''tool2'' (replicate 50000 (CHR ''B''))]]"
  by (simp add: history_view_def turn_view_def parts_of_def small_mixed_turns_def)

subsection \<open>A small record whose text is not under the first key present\<close>

text \<open>
  Claim C4 says that every prunable record is written to a file and counted, also when its
  text has at most 50,000 characters, so that the replacement text in the history is identical
  to the original and the record contributes zero tokens saved. The writing and the counting
  hold for every record (\<open>mask_success_view\<close>). The last part holds only when the key that is
  replaced is the key that was read: on the history \<open>small_mixed_turns\<close>, whose prunable record
  of 40,000 characters is read from \<open>result\<close> while \<open>output\<close> holds a number, the run counts the
  record, writes the unchanged text over \<open>output\<close>, and returns a part that holds the text
  twice; with an estimator that sees the whole payload \<open>tokensSaved\<close> is -40,000.
\<close>

theorem small_record_changes_savings:
  "getObservationContent small_mixed_part = Some (replicate 40000 (CHR ''A'')) \<and>
   length (replicate 40000 (CHR ''A'')) \<le> 50000 \<and>
   fst (mask payload_env small_mixed_turns 0)
     = Inr \<lparr>newHistory = 1, maskedCount = 1, tokensSaved = - 40000\<rparr> \<and>
   history_view (fst (snd (mask payload_env small_mixed_turns 0))) 1 ! 0 ! 0
     = \<lparr>functionResponse = Some \<lparr>name = Some ''tool1'',
          response = JObj [(''output'', JStr (replicate 40000 (CHR ''A''))),
                           (''result'', JStr (replicate 40000 (CHR ''A'')))],
          fr_rest = []\<rparr>,
        part_rest = []\<rparr>"
proof -
  let ?item = "\<lparr>contentIndex = 0, partIndex = 0, tokens = 40000, content = replicate 40000 (CHR ''A'')\<rparr>"
  let ?new = "\<lparr>functionResponse = Some \<lparr>name = Some ''tool1'',
          response = JObj [(''output'', JStr (replicate 40000 (CHR ''A''))),
                           (''result'', JStr (replicate 40000 (CHR ''A'')))],
          fr_rest = []\<rparr>,
        part_rest = []\<rparr>"
  have items: "prunableParts (scan_of payload_env small_mixed_turns 0) = [?item]"
    by (simp add: scan_small_mixed_turns)
  have trig: "30000 \<le> totalPrunableTokens (scan_of payload_env small_mixed_turns 0)"
    by (simp add: scan_small_mixed_turns)
  have io: "\<forall>k\<le>length (prunableParts (scan_of payload_env small_mixed_turns 0)).
      \<not> io_fails payload_env k"
    by (simp add: payload_env_def test_env_def)
  have wf: "wf_history small_mixed_turns 0"
    by (simp add: wf_history_def small_mixed_turns_def)
  from mask_success_view[OF wf trig io] obtain r s' tr where
    m: "mask payload_env small_mixed_turns 0 = (Inr r, s', tr)"
    and nh: "newHistory r = length (h_history small_mixed_turns)"
    and cnt: "maskedCount r = length (prunableParts (scan_of payload_env small_mixed_turns 0))"
    and sv: "tokensSaved r = sum_list (map (\<lambda>item. int (tokens item)
              - int (estimateTokenCountSync payload_env
                  [history_view s' (newHistory r) ! contentIndex item ! partIndex item]))
            (prunableParts (scan_of payload_env small_mixed_turns 0)))"
    and at: "\<forall>n<length (prunableParts (scan_of payload_env small_mixed_turns 0)).
         history_view s' (newHistory r)
             ! contentIndex (prunableParts (scan_of payload_env small_mixed_turns 0) ! n)
             ! partIndex (prunableParts (scan_of payload_env small_mixed_turns 0) ! n)
           = masked_at payload_env (observationDir_of payload_env) n
               (prunableParts (scan_of payload_env small_mixed_turns 0) ! n)
               (history_view small_mixed_turns 0
                  ! contentIndex (prunableParts (scan_of payload_env small_mixed_turns 0) ! n)
                  ! partIndex (prunableParts (scan_of payload_env small_mixed_turns 0) ! n))"
    by blast
  have nh1: "newHistory r = 1"
    using nh by (simp add: small_mixed_turns_def)
  from at[unfolded items, rule_format, of 0]
  have v: "history_view s' (newHistory r) ! 0 ! 0
      = masked_at payload_env (observationDir_of payload_env) 0 ?item small_mixed_part"
    by (simp add: view_small_mixed_turns)
  have ma: "masked_at payload_env (observationDir_of payload_env) 0 ?item small_mixed_part = ?new"
    by (simp add: masked_at_def small_mixed_part_def newResponse_of_def has_key_def
        masked_part_def snippet_for_def formatMaskedSnippet_small)
  have est: "estimateTokenCountSync payload_env [?new] = 80000"
    by (simp add: payload_env_def payload_estimate_def)
  have "tokensSaved r = - 40000"
    unfolding sv items using v ma est by simp
  with nh1 cnt items have r: "r = \<lparr>newHistory = 1, maskedCount = 1, tokensSaved = - 40000\<rparr>"
    by (cases r) simp
  have "fst (mask payload_env small_mixed_turns 0)
      = Inr \<lparr>newHistory = 1, maskedCount = 1, tokensSaved = - 40000\<rparr>"
    by (simp add: m r)
  moreover have "history_view (fst (snd (mask payload_env small_mixed_turns 0))) 1 ! 0 ! 0 = ?new"
    using v ma nh1 by (simp add: m)
  moreover have "length (replicate 40000 (CHR ''A'')) \<le> 50000" by simp
  ultimately show ?thesis
    using content_small_mixed_part by blast
qed

end
